theory Spec2Isabelle
  imports Complex_Main "HOL-Library.Product_Lexorder" "HOL-Library.Multiset"
    "HOL-Library.List_Lexorder" "HOL-Library.Char_ord"
begin

section \<open>The link and scan registry (server.ts)\<close>

subsection \<open>Tables\<close>

text \<open>
  The server keeps three SQLite tables, \<^verbatim>\<open>links(id, target_url, created_at)\<close>,
  \<^verbatim>\<open>scans(id, link_id, scanned_at, user_agent)\<close> and \<^verbatim>\<open>settings(key, value)\<close>.
  A \<^verbatim>\<open>DATETIME DEFAULT CURRENT_TIMESTAMP\<close> column holds the text
  \<^verbatim>\<open>YYYY-MM-DD HH:MM:SS\<close>; its fixed width makes the text order of \<^verbatim>\<open>ORDER BY\<close> the
  lexicographic order of the six numbers, which is the order of the product type below, and
  SQLite's \<^verbatim>\<open>date(...)\<close> of such a value is its first component. The clock is an input of
  the statements that insert a row.
\<close>

type_synonym calendar_date = "nat \<times> nat \<times> nat"
type_synonym timestamp = "calendar_date \<times> (nat \<times> nat \<times> nat)"

definition date :: "timestamp \<Rightarrow> calendar_date" where
  "date ts = fst ts"

record link_row =
  l_id :: string
  target_url :: string
  created_at :: timestamp

record scan_row =
  s_id :: nat
  link_id :: string
  scanned_at :: timestamp
  user_agent :: string

text \<open>
  \<open>scan_seq\<close> is the counter behind \<^verbatim>\<open>INTEGER PRIMARY KEY AUTOINCREMENT\<close>: the largest
  scan id handed out so far. Rows are kept in insertion order.
\<close>

record db =
  tbl_links :: "link_row list"
  tbl_scans :: "scan_row list"
  tbl_settings :: "(string \<times> string) list"
  scan_seq :: nat

definition empty_db :: db where
  "empty_db = \<lparr>tbl_links = [], tbl_scans = [], tbl_settings = [], scan_seq = 0\<rparr>"

text \<open>
  The start-up script: the tables are created if they do not exist, and
  \<^verbatim>\<open>INSERT OR IGNORE INTO settings (key, value) VALUES ('is_pro', 'false')\<close> adds the flag
  only when no row with that key is there. It runs on every start of the server, also over
  a database file left by an earlier run.
\<close>

definition initialize :: "db \<Rightarrow> db" where
  "initialize d =
     (if ''is_pro'' \<in> set (map fst (tbl_settings d)) then d
      else d\<lparr>tbl_settings := tbl_settings d @ [(''is_pro'', ''false'')]\<rparr>)"

subsection \<open>Statements\<close>

text \<open>JavaScript truthiness of a value that is a string or missing.\<close>

definition falsy :: "string option \<Rightarrow> bool" where
  "falsy v = (case v of None \<Rightarrow> True | Some s \<Rightarrow> s = [])"

text \<open>\<^verbatim>\<open>a || b\<close> on such a value.\<close>

definition or_else :: "string option \<Rightarrow> string \<Rightarrow> string" where
  "or_else v dflt = (case v of None \<Rightarrow> dflt | Some s \<Rightarrow> if s = [] then dflt else s)"

text \<open>\<^verbatim>\<open>SELECT value FROM settings WHERE key = 'is_pro'\<close>, \<^verbatim>\<open>.get()\<close>: the row or undefined.\<close>

definition select_is_pro :: "db \<Rightarrow> string option" where
  "select_is_pro d = map_of (tbl_settings d) ''is_pro''"

text \<open>\<^verbatim>\<open>UPDATE settings SET value = 'true' WHERE key = 'is_pro'\<close>.\<close>

definition update_is_pro :: "db \<Rightarrow> db" where
  "update_is_pro d =
     d\<lparr>tbl_settings := map (\<lambda>(k, v). if k = ''is_pro'' then (k, ''true'') else (k, v)) (tbl_settings d)\<rparr>"

text \<open>
  \<^verbatim>\<open>INSERT INTO links (id, target_url) VALUES (?, ?)\<close>. The primary key rejects an id that
  is already stored: the statement throws and the table is unchanged (\<open>None\<close>).
\<close>

definition insert_link :: "string \<Rightarrow> string \<Rightarrow> timestamp \<Rightarrow> db \<Rightarrow> db option" where
  "insert_link i url now d =
     (if i \<in> set (map l_id (tbl_links d)) then None
      else Some (d\<lparr>tbl_links := tbl_links d @ [\<lparr>l_id = i, target_url = url, created_at = now\<rparr>]\<rparr>))"

text \<open>\<^verbatim>\<open>SELECT * FROM links WHERE id = ?\<close>, \<^verbatim>\<open>.get(id)\<close>: the first matching row or undefined.\<close>

definition select_link :: "string \<Rightarrow> db \<Rightarrow> link_row option" where
  "select_link i d = find (\<lambda>l. l_id l = i) (tbl_links d)"

text \<open>\<^verbatim>\<open>INSERT INTO scans (link_id, user_agent) VALUES (?, ?)\<close>.\<close>

definition insert_scan :: "string \<Rightarrow> string \<Rightarrow> timestamp \<Rightarrow> db \<Rightarrow> db" where
  "insert_scan i ua now d =
     d\<lparr>tbl_scans := tbl_scans d @
          [\<lparr>s_id = Suc (scan_seq d), link_id = i, scanned_at = now, user_agent = ua\<rparr>],
       scan_seq := Suc (scan_seq d)\<rparr>"

text \<open>\<^verbatim>\<open>DELETE FROM scans WHERE link_id = ?\<close>.\<close>

definition delete_scans :: "string \<Rightarrow> db \<Rightarrow> db" where
  "delete_scans i d = d\<lparr>tbl_scans := filter (\<lambda>s. link_id s \<noteq> i) (tbl_scans d)\<rparr>"

text \<open>
  \<^verbatim>\<open>DELETE FROM links WHERE id = ?\<close>, with the number of link rows removed
  (\<^verbatim>\<open>result.changes\<close>). \<open>fk\<close> says whether the connection enforces foreign keys; when it
  does, \<^verbatim>\<open>ON DELETE CASCADE\<close> removes the scans of a removed link in the same statement.
\<close>

definition delete_links :: "bool \<Rightarrow> string \<Rightarrow> db \<Rightarrow> db \<times> nat" where
  "delete_links fk i d =
     (let changes = length (filter (\<lambda>l. l_id l = i) (tbl_links d));
          d1 = d\<lparr>tbl_links := filter (\<lambda>l. l_id l \<noteq> i) (tbl_links d)\<rparr>
      in (if fk \<and> 0 < changes then delete_scans i d1 else d1, changes))"

text \<open>
  \<^verbatim>\<open>ORDER BY key DESC\<close>. SQL leaves the order of rows with equal keys open; SQLite's sorter
  returns them in the order in which the query reads them, and so does the model.
\<close>

definition order_by_desc :: "('a \<Rightarrow> 'k::linorder) \<Rightarrow> 'a list \<Rightarrow> 'a list" where
  "order_by_desc key rows = rev (sort_key key (rev rows))"

text \<open>\<^verbatim>\<open>SELECT k, COUNT(*) ... GROUP BY k ORDER BY k ASC\<close> over the list of the rows' keys:
  one output row per key that occurs.\<close>

definition group_count :: "'k::linorder list \<Rightarrow> ('k \<times> nat) list" where
  "group_count ks = map (\<lambda>k. (k, count_list ks k)) (sort (remdups ks))"

text \<open>
  \<^verbatim>\<open>SELECT l.*, COUNT(s.id) as scan_count FROM links l LEFT JOIN scans s ON l.id = s.link_id
  GROUP BY l.id ORDER BY l.created_at DESC\<close>: the primary key makes each link its own group,
  and \<^verbatim>\<open>COUNT(s.id)\<close> counts the scans joined to it (none for a link without scans). The
  groups are read in the order of the grouping column, the text order of the ids, before
  they are sorted by creation time.
\<close>

definition select_links_with_count :: "db \<Rightarrow> (link_row \<times> nat) list" where
  "select_links_with_count d =
     order_by_desc (\<lambda>(l, c). created_at l)
       (map (\<lambda>l. (l, length (filter (\<lambda>s. link_id s = l_id l) (tbl_scans d))))
          (sort_key l_id (tbl_links d)))"

text \<open>\<^verbatim>\<open>SELECT * FROM scans WHERE link_id = ? ORDER BY scanned_at DESC\<close>.\<close>

definition select_scans :: "string \<Rightarrow> db \<Rightarrow> scan_row list" where
  "select_scans i d = order_by_desc scanned_at (filter (\<lambda>s. link_id s = i) (tbl_scans d))"

text \<open>\<^verbatim>\<open>SELECT date(scanned_at) as date, COUNT(*) as count FROM scans WHERE link_id = ?
  GROUP BY date(scanned_at) ORDER BY date ASC\<close>.\<close>

definition select_chart :: "string \<Rightarrow> db \<Rightarrow> (calendar_date \<times> nat) list" where
  "select_chart i d =
     group_count (map (\<lambda>s. date (scanned_at s)) (filter (\<lambda>s. link_id s = i) (tbl_scans d)))"

subsection \<open>Request handlers\<close>

record links_response =
  isPro :: bool
  links :: "(link_row \<times> nat) list"
  totalCount :: nat
  hiddenCount :: nat

datatype response =
    Webhook_Error string
  | Received
  | Pro_Status bool
  | Checkout_Url string
  | Checkout_Error string
  | Target_Required
  | Created string string
  | Success
  | Not_Found
  | Analytics link_row "scan_row list" "(calendar_date \<times> nat) list"
  | Links links_response
  | Redirect string
  | Server_Error

text \<open>
  \<^verbatim>\<open>POST /api/webhook\<close>. \<open>event\<close> is what \<^verbatim>\<open>stripe.webhooks.constructEvent\<close> gives: it throws
  (\<open>Inl\<close> the message) or returns the verified event, of which the handler reads the type.
\<close>

definition post_api_webhook :: "string + string \<Rightarrow> db \<Rightarrow> db \<times> response" where
  "post_api_webhook event d =
     (case event of
        Inl msg \<Rightarrow> (d, Webhook_Error msg)
      | Inr ty \<Rightarrow>
          (if ty = ''checkout.session.completed'' then update_is_pro d else d, Received))"

text \<open>\<^verbatim>\<open>GET /api/pro-status\<close>. Reading \<^verbatim>\<open>status.value\<close> of a missing row throws.\<close>

definition get_api_pro_status :: "db \<Rightarrow> db \<times> response" where
  "get_api_pro_status d =
     (case select_is_pro d of
        None \<Rightarrow> (d, Server_Error)
      | Some v \<Rightarrow> (d, Pro_Status (v = ''true'')))"

text \<open>\<^verbatim>\<open>POST /api/checkout\<close>: a call to the payment service, which gives a session URL or
  throws; the database is not touched.\<close>

definition post_api_checkout :: "string + string \<Rightarrow> db \<Rightarrow> db \<times> response" where
  "post_api_checkout session d =
     (case session of Inl msg \<Rightarrow> (d, Checkout_Error msg) | Inr url \<Rightarrow> (d, Checkout_Url url))"

text \<open>
  \<^verbatim>\<open>POST /api/links\<close> (createLink). \<open>targetUrl\<close> is the field of the request body, a string
  or missing; \<open>new_id\<close> is what \<^verbatim>\<open>shortid.generate()\<close> returns, \<open>app_url\<close> the
  environment variable \<^verbatim>\<open>APP_URL\<close>. A rejected insert is an uncaught exception.
\<close>

definition short_url :: "string option \<Rightarrow> string \<Rightarrow> string" where
  "short_url app_url i = or_else app_url ''http://localhost:3000'' @ ''/s/'' @ i"

definition post_api_links ::
    "string option \<Rightarrow> string \<Rightarrow> timestamp \<Rightarrow> string option \<Rightarrow> db \<Rightarrow> db \<times> response" where
  "post_api_links app_url new_id now targetUrl d =
     (if falsy targetUrl then (d, Target_Required)
      else (case insert_link new_id (the targetUrl) now d of
              None \<Rightarrow> (d, Server_Error)
            | Some d1 \<Rightarrow> (d1, Created new_id (short_url app_url new_id))))"

text \<open>\<^verbatim>\<open>DELETE /api/links/:id\<close> (deleteLink): two statements, run one after the other.\<close>

definition delete_api_links :: "bool \<Rightarrow> string \<Rightarrow> db \<Rightarrow> db \<times> response" where
  "delete_api_links fk i d =
     (let d1 = delete_scans i d;
          (d2, changes) = delete_links fk i d1
      in if 0 < changes then (d2, Success) else (d2, Not_Found))"

text \<open>\<^verbatim>\<open>GET /api/analytics/:id\<close> (getDetail).\<close>

definition get_api_analytics :: "string \<Rightarrow> db \<Rightarrow> db \<times> response" where
  "get_api_analytics i d =
     (case select_link i d of
        None \<Rightarrow> (d, Not_Found)
      | Some link \<Rightarrow> (d, Analytics link (select_scans i d) (select_chart i d)))"

text \<open>\<^verbatim>\<open>GET /api/links\<close> (listLinks behind the freemium gate).\<close>

definition get_api_links :: "db \<Rightarrow> db \<times> response" where
  "get_api_links d =
     (case select_is_pro d of
        None \<Rightarrow> (d, Server_Error)
      | Some v \<Rightarrow>
          (let is_pro = (v = ''true''); rows = select_links_with_count d
           in if \<not> is_pro \<and> 2 < length rows
              then (d, Links \<lparr>isPro = False, links = take 2 rows,
                              totalCount = length rows, hiddenCount = length rows - 2\<rparr>)
              else (d, Links \<lparr>isPro = True, links = rows,
                              totalCount = length rows, hiddenCount = 0\<rparr>)))"

text \<open>
  \<^verbatim>\<open>res.redirect(url)\<close> of Express: the \<^verbatim>\<open>Location\<close> header is \<^verbatim>\<open>encodeUrl\<close> of the
  url, where the url \<^verbatim>\<open>back\<close> stands for the request's \<^verbatim>\<open>Referrer\<close> header, or for
  \<^verbatim>\<open>/\<close> when the request has none. \<^verbatim>\<open>encodeUrl\<close>, of the package \<^verbatim>\<open>encodeurl\<close>,
  percent-encodes the characters a URL cannot hold; it is a parameter.
\<close>

definition res_redirect :: "(string \<Rightarrow> string) \<Rightarrow> string option \<Rightarrow> string \<Rightarrow> response" where
  "res_redirect encodeUrl referrer url =
     Redirect (encodeUrl (if url = ''back'' then or_else referrer ''/'' else url))"

text \<open>\<^verbatim>\<open>GET /s/:id\<close> (resolveLink). \<open>ua\<close> and \<open>referrer\<close> are the request's
  \<^verbatim>\<open>user-agent\<close> and \<^verbatim>\<open>referrer\<close> headers.\<close>

definition get_s ::
    "(string \<Rightarrow> string) \<Rightarrow> string \<Rightarrow> string option \<Rightarrow> string option \<Rightarrow> timestamp \<Rightarrow> db
       \<Rightarrow> db \<times> response" where
  "get_s encodeUrl i ua referrer now d =
     (case select_link i d of
        Some link \<Rightarrow> (insert_scan i (or_else ua ''unknown'') now d,
                      res_redirect encodeUrl referrer (target_url link))
      | None \<Rightarrow> (d, Not_Found))"

text \<open>The requests the server answers, each with the inputs its handler reads from outside
  the database.\<close>

datatype request =
    POST_webhook "string + string"
  | GET_pro_status
  | POST_checkout "string + string"
  | POST_links string timestamp "string option"
  | DELETE_links string
  | GET_analytics string
  | GET_links
  | GET_s string "string option" "string option" timestamp

text \<open>What the handlers read from the process: the environment variable \<^verbatim>\<open>APP_URL\<close>,
  whether the database connection enforces foreign keys, and \<^verbatim>\<open>encodeUrl\<close>.\<close>

record env =
  APP_URL :: "string option"
  foreign_keys :: bool
  encodeUrl :: "string \<Rightarrow> string"

fun handle :: "env \<Rightarrow> request \<Rightarrow> db \<Rightarrow> db \<times> response" where
  "handle e (POST_webhook event) d = post_api_webhook event d"
| "handle e GET_pro_status d = get_api_pro_status d"
| "handle e (POST_checkout session) d = post_api_checkout session d"
| "handle e (POST_links new_id now targetUrl) d = post_api_links (APP_URL e) new_id now targetUrl d"
| "handle e (DELETE_links i) d = delete_api_links (foreign_keys e) i d"
| "handle e (GET_analytics i) d = get_api_analytics i d"
| "handle e GET_links d = get_api_links d"
| "handle e (GET_s i ua referrer now) d = get_s (encodeUrl e) i ua referrer now d"

text \<open>What happens to the database: a request is answered, or the server is started.\<close>

datatype event = Request request | Start

fun step :: "env \<Rightarrow> event \<Rightarrow> db \<Rightarrow> db" where
  "step e (Request r) d = fst (handle e r d)"
| "step e Start d = initialize d"

fun run :: "env \<Rightarrow> event list \<Rightarrow> db \<Rightarrow> db" where
  "run e [] d = d"
| "run e (ev # evs) d = run e evs (step e ev d)"

text \<open>The stored flag reads as pro.\<close>

definition is_pro :: "db \<Rightarrow> bool" where
  "is_pro d = (select_is_pro d = Some ''true'')"

text \<open>
  A handler changes the database by a sequence of statements. better-sqlite3 runs a
  statement that is not inside \<^verbatim>\<open>db.transaction(...)\<close> in SQLite's autocommit mode: the
  statement is a transaction of its own, written to the database file when \<^verbatim>\<open>run\<close>
  returns. Statements inside one transaction reach the file together, at its commit.
  \<open>file_states\<close> lists the successive contents of the database file, the content before
  the work first. They are what a reader of the file finds: another connection to
  \<^verbatim>\<open>analytics.db\<close>, or the server itself when it is started again after the process was
  stopped inside the work.
\<close>

datatype work = Autocommit "(db \<Rightarrow> db) list" | Transaction "(db \<Rightarrow> db) list"

fun commits :: "(db \<Rightarrow> db) list \<Rightarrow> db \<Rightarrow> db list" where
  "commits [] d = []"
| "commits (stmt # stmts) d = stmt d # commits stmts (stmt d)"

fun file_states :: "work \<Rightarrow> db \<Rightarrow> db list" where
  "file_states (Autocommit stmts) d = d # commits stmts d"
| "file_states (Transaction stmts) d = [d, fold (\<lambda>stmt. stmt) stmts d]"

text \<open>
  The statements of \<^verbatim>\<open>DELETE /api/links/:id\<close>, and the work the handler does with them:
  it opens no transaction.
\<close>

definition delete_api_links_stmts :: "bool \<Rightarrow> string \<Rightarrow> (db \<Rightarrow> db) list" where
  "delete_api_links_stmts fk i = [delete_scans i, \<lambda>d. fst (delete_links fk i d)]"

definition delete_api_links_work :: "bool \<Rightarrow> string \<Rightarrow> work" where
  "delete_api_links_work fk i = Autocommit (delete_api_links_stmts fk i)"

text \<open>Every scan row references a stored link.\<close>

definition no_orphans :: "db \<Rightarrow> bool" where
  "no_orphans d = list_all (\<lambda>s. link_id s \<in> set (map l_id (tbl_links d))) (tbl_scans d)"

text \<open>The request of the payment service that confirms a purchase.\<close>

definition completed :: request where
  "completed = POST_webhook (Inr ''checkout.session.completed'')"

subsection \<open>A database for the examples\<close>

definition ex_links :: "link_row list" where
  "ex_links =
     [\<lparr>l_id = ''a'', target_url = ''http://x.test/1'', created_at = ((2024, 1, 1), (9, 0, 0))\<rparr>,
      \<lparr>l_id = ''b'', target_url = ''http://x.test/2'', created_at = ((2024, 1, 1), (9, 30, 0))\<rparr>,
      \<lparr>l_id = ''c'', target_url = ''http://x.test/3'', created_at = ((2024, 1, 2), (8, 0, 0))\<rparr>,
      \<lparr>l_id = ''d'', target_url = ''http://x.test/4'', created_at = ((2024, 1, 2), (8, 0, 1))\<rparr>,
      \<lparr>l_id = ''e'', target_url = ''http://x.test/5'', created_at = ((2024, 2, 1), (0, 0, 0))\<rparr>]"

definition ex_scans :: "scan_row list" where
  "ex_scans =
     [\<lparr>s_id = 1, link_id = ''a'', scanned_at = ((2024, 1, 1), (10, 0, 0)), user_agent = ''ua1''\<rparr>,
      \<lparr>s_id = 2, link_id = ''b'', scanned_at = ((2024, 1, 1), (11, 0, 0)), user_agent = ''ua2''\<rparr>,
      \<lparr>s_id = 3, link_id = ''a'', scanned_at = ((2024, 1, 1), (12, 0, 0)), user_agent = ''unknown''\<rparr>,
      \<lparr>s_id = 4, link_id = ''a'', scanned_at = ((2024, 1, 3), (7, 0, 0)), user_agent = ''ua1''\<rparr>]"

definition ex_db :: "string \<Rightarrow> db" where
  "ex_db flag = \<lparr>tbl_links = ex_links, tbl_scans = ex_scans,
                 tbl_settings = [(''is_pro'', flag)], scan_seq = 4\<rparr>"

definition ex_small :: db where
  "ex_small = \<lparr>tbl_links = take 2 ex_links, tbl_scans = [],
                tbl_settings = [(''is_pro'', ''false'')], scan_seq = 4\<rparr>"

section \<open>The artistic QR compositor (App.tsx)\<close>

subsection \<open>The canvas\<close>

text \<open>
  The 2D canvas is modelled by the list of the drawing calls made on it, in order, and by
  the colour these calls leave at a point. Coordinates and colour channels are JavaScript
  numbers; the model computes with them as real numbers, and it samples the canvas at exact
  points, without the anti-aliasing of a raster. A colour is a CSS colour: three channels
  from 0 to 255 and an opacity from 0 to 1.
\<close>

record colour =
  red :: real
  green :: real
  blue :: real
  alpha :: real

definition rgba :: "real \<Rightarrow> real \<Rightarrow> real \<Rightarrow> real \<Rightarrow> colour" where
  "rgba r g b a = \<lparr>red = r, green = g, blue = b, alpha = a\<rparr>"

text \<open>The CSS colours \<^verbatim>\<open>'black'\<close> and \<^verbatim>\<open>'white'\<close>, and the cleared canvas.\<close>

definition black :: colour where
  "black = rgba 0 0 0 1"

definition white :: colour where
  "white = rgba 255 255 255 1"

definition transparent :: colour where
  "transparent = rgba 0 0 0 0"

text \<open>A decoded image gives a colour at each position of the unit square.\<close>

type_synonym image = "real \<Rightarrow> real \<Rightarrow> colour"

text \<open>
  The three calls the compositor makes: \<^verbatim>\<open>drawImage(img, x, y, w, h)\<close>; the path
  \<^verbatim>\<open>beginPath(); arc(cx, cy, r, 0, 2 * PI); fill()\<close> under a fill style; and
  \<^verbatim>\<open>fillRect(x, y, w, h)\<close> under a fill style.
\<close>

datatype draw_op =
    Draw_Image image real real real real
  | Fill_Arc real real real colour
  | Fill_Rect real real real real colour

text \<open>The canvas composes what is drawn over what is there (source-over).\<close>

definition over :: "colour \<Rightarrow> colour \<Rightarrow> colour" where
  "over s d =
     (let a = alpha s + alpha d * (1 - alpha s)
      in if a = 0 then transparent
         else rgba ((red s * alpha s + red d * alpha d * (1 - alpha s)) / a)
                   ((green s * alpha s + green d * alpha d * (1 - alpha s)) / a)
                   ((blue s * alpha s + blue d * alpha d * (1 - alpha s)) / a) a)"

fun covers :: "draw_op \<Rightarrow> real \<times> real \<Rightarrow> bool" where
  "covers (Draw_Image img x y w h) (px, py) = (x \<le> px \<and> px < x + w \<and> y \<le> py \<and> py < y + h)"
| "covers (Fill_Arc cx cy r c) (px, py) = ((px - cx)\<^sup>2 + (py - cy)\<^sup>2 \<le> r\<^sup>2)"
| "covers (Fill_Rect x y w h c) (px, py) = (x \<le> px \<and> px < x + w \<and> y \<le> py \<and> py < y + h)"

fun source :: "draw_op \<Rightarrow> real \<times> real \<Rightarrow> colour" where
  "source (Draw_Image img x y w h) (px, py) = img ((px - x) / w) ((py - y) / h)"
| "source (Fill_Arc cx cy r c) p = c"
| "source (Fill_Rect x y w h c) p = c"

definition paint :: "real \<times> real \<Rightarrow> colour \<Rightarrow> draw_op \<Rightarrow> colour" where
  "paint p c op = (if covers op p then over (source op p) c else c)"

definition sample :: "draw_op list \<Rightarrow> real \<times> real \<Rightarrow> colour" where
  "sample ops p = foldl (paint p) transparent ops"

text \<open>A drawing call is a filled circle with the given centre.\<close>

definition centred_at :: "real \<Rightarrow> real \<Rightarrow> draw_op \<Rightarrow> bool" where
  "centred_at x y op = (case op of Fill_Arc cx cy r c \<Rightarrow> cx = x \<and> cy = y | _ \<Rightarrow> False)"

subsection \<open>The module matrix\<close>

text \<open>
  \<^verbatim>\<open>QRCode.create(text, { errorCorrectionLevel })\<close> of the \<^verbatim>\<open>qrcode\<close> package is a
  collaborator. Of its result the compositor reads \<^verbatim>\<open>modules.size\<close> and
  \<^verbatim>\<open>modules.get(row, col)\<close>. A QR symbol has between 21 and 177 modules a side.
\<close>

datatype ec_level = L | M | Q | H

record bit_matrix =
  m_size :: int
  m_get :: "int \<Rightarrow> int \<Rightarrow> bool"

subsection \<open>Drawing\<close>

definition isFinder :: "int \<Rightarrow> int \<Rightarrow> int \<Rightarrow> bool" where
  "isFinder moduleCount row col =
     ((row < 7 \<and> col < 7) \<or>
      (row < 7 \<and> col \<ge> moduleCount - 7) \<or>
      (row \<ge> moduleCount - 7 \<and> col < 7))"

text \<open>The body of the inner loop for a cell that is not skipped.\<close>

definition dot :: "bit_matrix \<Rightarrow> real \<Rightarrow> int \<Rightarrow> int \<Rightarrow> draw_op" where
  "dot modules scale row col =
     (let isDark = m_get modules row col;
          centerX = real_of_int col * scale + scale / 2;
          centerY = real_of_int row * scale + scale / 2;
          radius = scale * 0.18
      in Fill_Arc centerX centerY radius (if isDark then rgba 0 0 0 0.9 else rgba 255 255 255 0.9))"

text \<open>\<^verbatim>\<open>for (let col = 0; col < moduleCount; col++)\<close>, from the current \<open>col\<close> on.\<close>

function col_loop :: "bit_matrix \<Rightarrow> real \<Rightarrow> int \<Rightarrow> int \<Rightarrow> draw_op list \<Rightarrow> draw_op list" where
  "col_loop modules scale row col ops =
     (if col < m_size modules
      then col_loop modules scale row (col + 1)
             (if isFinder (m_size modules) row col then ops
              else ops @ [dot modules scale row col])
      else ops)"
  by pat_completeness auto
termination
  by (relation "measure (\<lambda>(modules, scale, row, col, ops). nat (m_size modules - col))") auto

text \<open>\<^verbatim>\<open>for (let row = 0; row < moduleCount; row++)\<close>, from the current \<open>row\<close> on.\<close>

function row_loop :: "bit_matrix \<Rightarrow> real \<Rightarrow> int \<Rightarrow> draw_op list \<Rightarrow> draw_op list" where
  "row_loop modules scale row ops =
     (if row < m_size modules
      then row_loop modules scale (row + 1) (col_loop modules scale row 0 ops)
      else ops)"
  by pat_completeness auto
termination
  by (relation "measure (\<lambda>(modules, scale, row, ops). nat (m_size modules - row))") auto

declare col_loop.simps [simp del] row_loop.simps [simp del]

definition drawFinder :: "real \<Rightarrow> int \<Rightarrow> int \<Rightarrow> draw_op list \<Rightarrow> draw_op list" where
  "drawFinder scale x y ops =
     ops @
     [Fill_Rect (real_of_int x * scale) (real_of_int y * scale) (7 * scale) (7 * scale) black,
      Fill_Rect (real_of_int (x + 1) * scale) (real_of_int (y + 1) * scale) (5 * scale) (5 * scale) white,
      Fill_Rect (real_of_int (x + 2) * scale) (real_of_int (y + 2) * scale) (3 * scale) (3 * scale) black]"

text \<open>\<^verbatim>\<open>const scale = size / moduleCount\<close> with \<^verbatim>\<open>size = 1024\<close>.\<close>

definition scale_of :: "bit_matrix \<Rightarrow> real" where
  "scale_of modules = 1024 / real_of_int (m_size modules)"

text \<open>The calls of the nested loop alone.\<close>

definition dot_pass :: "bit_matrix \<Rightarrow> draw_op list" where
  "dot_pass modules = row_loop modules (scale_of modules) 0 []"

text \<open>The canvas part of \<^verbatim>\<open>generateArtisticQR\<close>: background, dots, finders.\<close>

definition composite :: "image \<Rightarrow> bit_matrix \<Rightarrow> draw_op list" where
  "composite bgImg modules =
     (let moduleCount = m_size modules;
          size = 1024;
          scale = size / real_of_int moduleCount;
          ops0 = [Draw_Image bgImg 0 0 size size];
          ops1 = row_loop modules scale 0 ops0;
          ops2 = drawFinder scale 0 0 ops1;
          ops3 = drawFinder scale (moduleCount - 7) 0 ops2
      in drawFinder scale 0 (moduleCount - 7) ops3)"

text \<open>The colour of a finder pattern at a position given in modules from its corner.\<close>

definition nested :: "real \<Rightarrow> real \<Rightarrow> colour" where
  "nested u v =
     (if 2 \<le> u \<and> u < 5 \<and> 2 \<le> v \<and> v < 5 then black
      else if 1 \<le> u \<and> u < 6 \<and> 1 \<le> v \<and> v < 6 then white
      else black)"

subsection \<open>A generation request\<close>

text \<open>
  \<^verbatim>\<open>generateArtisticQR\<close> calls four collaborators besides the server: the image model
  (\<open>stylize\<close>: the stylized image, or none when the call throws or returns no image), the
  QR encoder (\<open>create\<close>: none when it throws), the canvas context (\<open>getContext\<close>: whether
  one is returned) and the browser's image decoder (\<open>load_image\<close>: none on
  \<^verbatim>\<open>onerror\<close>). The request to the server is answered by \<open>post_api_links\<close>. An exception
  ends in the \<^verbatim>\<open>catch\<close> block (\<open>Failed\<close>); the two early returns produce nothing.
\<close>

datatype outcome = Not_Started | Failed | No_Context | Result "draw_op list"

record collaborators =
  stylize :: "string \<Rightarrow> string option"
  create :: "string \<Rightarrow> ec_level \<Rightarrow> bit_matrix option"
  getContext :: bool
  load_image :: "string \<Rightarrow> image option"

definition generateArtisticQR ::
    "collaborators \<Rightarrow> env \<Rightarrow> string \<Rightarrow> timestamp \<Rightarrow> string option \<Rightarrow> string \<Rightarrow> db \<Rightarrow> db \<times> outcome" where
  "generateArtisticQR c e new_id now sourceImage text d =
     (if falsy sourceImage \<or> text = [] then (d, Not_Started)
      else
        (case post_api_links (APP_URL e) new_id now (Some text) d of
           (d1, Created i shortUrl) \<Rightarrow>
             (case stylize c (the sourceImage) of
                None \<Rightarrow> (d1, Failed)
              | Some stylizedImageBase64 \<Rightarrow>
                  (case create c shortUrl H of
                     None \<Rightarrow> (d1, Failed)
                   | Some modules \<Rightarrow>
                       if \<not> getContext c then (d1, No_Context)
                       else (case load_image c stylizedImageBase64 of
                               None \<Rightarrow> (d1, Failed)
                             | Some bgImg \<Rightarrow> (d1, Result (composite bgImg modules)))))
         | (d1, _) \<Rightarrow> (d1, Failed)))"

subsection \<open>A matrix and collaborators for the examples\<close>

definition ex_modules :: bit_matrix where
  "ex_modules = \<lparr>m_size = 21, m_get = (\<lambda>row col. (row + col) mod 2 = 0)\<rparr>"

definition ex_collaborators :: collaborators where
  "ex_collaborators =
     \<lparr>stylize = (\<lambda>src. Some (''toon:'' @ src)),
      create = (\<lambda>payload level.
         if payload = ''http://localhost:3000/s/q1'' \<and> level = H then Some ex_modules else None),
      getContext = True,
      load_image = (\<lambda>src. Some (\<lambda>u v. rgba 10 20 30 1))\<rparr>"

text \<open>An encoder for the examples: it writes a space as \<^verbatim>\<open>%20\<close>, as \<^verbatim>\<open>encodeUrl\<close>
  does, and leaves the other characters of the examples as they are.\<close>

definition ex_encodeUrl :: "string \<Rightarrow> string" where
  "ex_encodeUrl url = concat (map (\<lambda>c. if c = CHR '' '' then ''%20'' else [c]) url)"

definition ex_env :: env where
  "ex_env = \<lparr>APP_URL = None, foreign_keys = True, encodeUrl = ex_encodeUrl\<rparr>"

section \<open>Properties of the registry\<close>

lemmas ex_defs = ex_db_def ex_links_def ex_scans_def

subsection \<open>Looking a link up\<close>

lemma find_append_None: "find P xs = None \<Longrightarrow> find P (xs @ ys) = find P ys"
  by (induction xs) (auto split: if_splits)

lemma select_link_Some: "select_link i d = Some l \<Longrightarrow> l \<in> set (tbl_links d) \<and> l_id l = i"
  unfolding select_link_def by (auto simp: find_Some_iff)

lemma select_link_None: "select_link i d = None \<longleftrightarrow> i \<notin> set (map l_id (tbl_links d))"
  unfolding select_link_def by (auto simp: find_None_iff)

lemma select_link_insert:
  assumes "insert_link i url now d = Some d1"
  shows "select_link i d1 = Some \<lparr>l_id = i, target_url = url, created_at = now\<rparr>"
proof -
  from assms have fresh: "i \<notin> set (map l_id (tbl_links d))"
    and d1: "d1 = d\<lparr>tbl_links := tbl_links d @ [\<lparr>l_id = i, target_url = url, created_at = now\<rparr>]\<rparr>"
    by (auto simp: insert_link_def split: if_splits)
  from fresh have "find (\<lambda>l. l_id l = i) (tbl_links d) = None"
    by (auto simp: find_None_iff)
  then show ?thesis
    by (simp add: select_link_def d1 find_append_None)
qed

lemma select_link_stored:
  assumes "l \<in> set (tbl_links d)"
  obtains link where "select_link (l_id l) d = Some link"
proof -
  from assms have "select_link (l_id l) d \<noteq> None"
    by (simp add: select_link_None)
  then show ?thesis using that by blast
qed

lemma select_link_unique:
  assumes "distinct (map l_id (tbl_links d))" and "l \<in> set (tbl_links d)"
    and "select_link (l_id l) d = Some link"
  shows "link = l"
proof -
  from assms(3) have "link \<in> set (tbl_links d)" and "l_id link = l_id l"
    using select_link_Some by blast+
  with assms(1,2) show ?thesis
    by (meson distinct_map inj_onD)
qed

subsection \<open>Resolving a short link\<close>

text \<open>
  Claim C4, as the code has it. Resolving the id of a stored link finds a stored link with
  that id (the link itself when the ids are distinct, as the primary key keeps them) and
  redirects to the location that \<^verbatim>\<open>res.redirect\<close> makes of its stored target: the encoded
  target, or, when the target is the text \<open>back\<close>, the encoded referrer of the request, or
  \<open>/\<close> when the request has none or an empty one. So the redirect is exactly the stored
  target whenever the target is not \<open>back\<close> and the encoding leaves it as it is. The
  request leaves the links and the settings alone and appends exactly one scan row, for
  that id, stamped with the current time; its user agent is the request's header when the
  header is present and not empty, and the literal \<open>unknown\<close> when the header is missing
  or empty (\<^verbatim>\<open>req.headers['user-agent'] || 'unknown'\<close>). Resolving an id that no stored link
  has answers not-found and leaves the whole database unchanged. A link created for \<open>u\<close>
  resolves, under the id the creation returned, to the location made of \<open>u\<close>, with one more
  scan row; and creation succeeds for every non-empty \<open>u\<close> and every id not yet stored.
\<close>

theorem resolve_link:
  "(l \<in> set (tbl_links d) \<and> l_id l = i \<longrightarrow>
      (\<exists>link ev.
          link \<in> set (tbl_links d) \<and> l_id link = i \<and>
          (distinct (map l_id (tbl_links d)) \<longrightarrow> link = l) \<and>
          snd (get_s enc i ua ref now d) =
            Redirect (enc (if target_url link = ''back''
                           then (case ref of None \<Rightarrow> ''/'' | Some r \<Rightarrow> if r = [] then ''/'' else r)
                           else target_url link)) \<and>
          (target_url link \<noteq> ''back'' \<and> enc (target_url link) = target_url link \<longrightarrow>
             snd (get_s enc i ua ref now d) = Redirect (target_url link)) \<and>
          tbl_links (fst (get_s enc i ua ref now d)) = tbl_links d \<and>
          tbl_settings (fst (get_s enc i ua ref now d)) = tbl_settings d \<and>
          tbl_scans (fst (get_s enc i ua ref now d)) = tbl_scans d @ [ev] \<and>
          link_id ev = i \<and> scanned_at ev = now \<and>
          user_agent ev = (case ua of None \<Rightarrow> ''unknown''
                           | Some s \<Rightarrow> if s = [] then ''unknown'' else s))) \<and>
   (i \<notin> l_id ` set (tbl_links d) \<longrightarrow> get_s enc i ua ref now d = (d, Not_Found)) \<and>
   (post_api_links app new_id t (Some u) d = (d1, Created i su) \<longrightarrow>
      snd (get_s enc i ua ref now d1) =
        Redirect (enc (if u = ''back''
                       then (case ref of None \<Rightarrow> ''/'' | Some r \<Rightarrow> if r = [] then ''/'' else r)
                       else u)) \<and>
      (u \<noteq> ''back'' \<and> enc u = u \<longrightarrow> snd (get_s enc i ua ref now d1) = Redirect u) \<and>
      length (tbl_scans (fst (get_s enc i ua ref now d1))) = Suc (length (tbl_scans d1))) \<and>
   (u \<noteq> [] \<and> new_id \<notin> set (map l_id (tbl_links d)) \<longrightarrow>
      (\<exists>d1. post_api_links app new_id t (Some u) d = (d1, Created new_id (short_url app new_id))))"
proof (intro conjI impI)
  assume a: "l \<in> set (tbl_links d) \<and> l_id l = i"
  then obtain link where sel: "select_link i d = Some link"
    using select_link_stored by blast
  then have mem: "link \<in> set (tbl_links d)" "l_id link = i"
    using select_link_Some by blast+
  have uniq: "distinct (map l_id (tbl_links d)) \<longrightarrow> link = l"
    using a sel select_link_unique by blast
  let ?ev = "\<lparr>s_id = Suc (scan_seq d), link_id = i, scanned_at = now,
              user_agent = or_else ua ''unknown''\<rparr>"
  have "snd (get_s enc i ua ref now d) =
            Redirect (enc (if target_url link = ''back''
                           then (case ref of None \<Rightarrow> ''/'' | Some r \<Rightarrow> if r = [] then ''/'' else r)
                           else target_url link))"
    and "target_url link \<noteq> ''back'' \<and> enc (target_url link) = target_url link \<longrightarrow>
             snd (get_s enc i ua ref now d) = Redirect (target_url link)"
    and "tbl_links (fst (get_s enc i ua ref now d)) = tbl_links d"
    and "tbl_settings (fst (get_s enc i ua ref now d)) = tbl_settings d"
    and "tbl_scans (fst (get_s enc i ua ref now d)) = tbl_scans d @ [?ev]"
    and "link_id ?ev = i" and "scanned_at ?ev = now"
    and "user_agent ?ev = (case ua of None \<Rightarrow> ''unknown''
                           | Some s \<Rightarrow> if s = [] then ''unknown'' else s)"
    using sel by (simp_all add: get_s_def res_redirect_def insert_scan_def or_else_def)
  with mem uniq
  show "\<exists>link ev.
          link \<in> set (tbl_links d) \<and> l_id link = i \<and>
          (distinct (map l_id (tbl_links d)) \<longrightarrow> link = l) \<and>
          snd (get_s enc i ua ref now d) =
            Redirect (enc (if target_url link = ''back''
                           then (case ref of None \<Rightarrow> ''/'' | Some r \<Rightarrow> if r = [] then ''/'' else r)
                           else target_url link)) \<and>
          (target_url link \<noteq> ''back'' \<and> enc (target_url link) = target_url link \<longrightarrow>
             snd (get_s enc i ua ref now d) = Redirect (target_url link)) \<and>
          tbl_links (fst (get_s enc i ua ref now d)) = tbl_links d \<and>
          tbl_settings (fst (get_s enc i ua ref now d)) = tbl_settings d \<and>
          tbl_scans (fst (get_s enc i ua ref now d)) = tbl_scans d @ [ev] \<and>
          link_id ev = i \<and> scanned_at ev = now \<and>
          user_agent ev = (case ua of None \<Rightarrow> ''unknown''
                           | Some s \<Rightarrow> if s = [] then ''unknown'' else s)"
    by blast
next
  assume "i \<notin> l_id ` set (tbl_links d)"
  then have "select_link i d = None" by (simp add: select_link_None)
  then show "get_s enc i ua ref now d = (d, Not_Found)" by (simp add: get_s_def)
next
  assume c: "post_api_links app new_id t (Some u) d = (d1, Created i su)"
  then have "insert_link i u t d = Some d1"
    by (auto simp: post_api_links_def split: if_splits option.splits)
  then have sel: "select_link i d1 = Some \<lparr>l_id = i, target_url = u, created_at = t\<rparr>"
    by (rule select_link_insert)
  then show "snd (get_s enc i ua ref now d1) =
        Redirect (enc (if u = ''back''
                       then (case ref of None \<Rightarrow> ''/'' | Some r \<Rightarrow> if r = [] then ''/'' else r)
                       else u))"
    by (simp add: get_s_def res_redirect_def or_else_def)
  from sel show "length (tbl_scans (fst (get_s enc i ua ref now d1))) = Suc (length (tbl_scans d1))"
    by (simp add: get_s_def insert_scan_def)
  assume "u \<noteq> ''back'' \<and> enc u = u"
  with sel show "snd (get_s enc i ua ref now d1) = Redirect u"
    by (simp add: get_s_def res_redirect_def)
next
  assume "u \<noteq> [] \<and> new_id \<notin> set (map l_id (tbl_links d))"
  then show "\<exists>d1. post_api_links app new_id t (Some u) d = (d1, Created new_id (short_url app new_id))"
    by (simp add: post_api_links_def falsy_def insert_link_def)
qed

theorem resolve_link_witness:
  "snd (get_s ex_encodeUrl ''a'' None None ((2024, 1, 4), (0, 0, 0)) (ex_db ''false''))
     = Redirect ''http://x.test/1'' \<and>
   map user_agent (tbl_scans (fst (get_s ex_encodeUrl ''a'' None None ((2024, 1, 4), (0, 0, 0)) (ex_db ''false''))))
     = [''ua1'', ''ua2'', ''unknown'', ''ua1'', ''unknown''] \<and>
   map user_agent (tbl_scans (fst (get_s ex_encodeUrl ''b'' (Some ''curl/8'') None ((2024, 1, 4), (0, 0, 0)) (ex_db ''false''))))
     = [''ua1'', ''ua2'', ''unknown'', ''ua1'', ''curl/8''] \<and>
   get_s ex_encodeUrl ''zz'' (Some ''ua'') None ((2024, 1, 4), (0, 0, 0)) (ex_db ''false'')
     = (ex_db ''false'', Not_Found) \<and>
   snd (get_s ex_encodeUrl ''f'' (Some ''ua'') None ((2024, 1, 4), (0, 0, 0))
         (fst (post_api_links None ''f'' ((2024, 1, 3), (0, 0, 0)) (Some ''http://y.test/'') (ex_db ''false''))))
     = Redirect ''http://y.test/''"
  using resolve_link [where i = "''a''" and d = "ex_db ''false''" and ua = None and ref = None
      and enc = ex_encodeUrl and now = "((2024, 1, 4), (0, 0, 0))" and l = "ex_links ! 0"]
    resolve_link [where i = "''b''" and d = "ex_db ''false''" and ua = "Some ''curl/8''" and ref = None
      and enc = ex_encodeUrl and now = "((2024, 1, 4), (0, 0, 0))" and l = "ex_links ! 1"]
    resolve_link [where i = "''zz''" and d = "ex_db ''false''" and ua = "Some ''ua''" and ref = None
      and enc = ex_encodeUrl and now = "((2024, 1, 4), (0, 0, 0))"]
    resolve_link [where i = "''f''" and d = "ex_db ''false''" and ua = "Some ''ua''" and ref = None
      and enc = ex_encodeUrl
      and now = "((2024, 1, 4), (0, 0, 0))" and app = None and new_id = "''f''"
      and t = "((2024, 1, 3), (0, 0, 0))" and u = "''http://y.test/''"
      and su = "''http://localhost:3000/s/f''"
      and ?d1.0 = "fst (post_api_links None ''f'' ((2024, 1, 3), (0, 0, 0)) (Some ''http://y.test/'') (ex_db ''false''))"]
  by (simp add: ex_defs select_link_def get_s_def res_redirect_def insert_scan_def or_else_def
        post_api_links_def insert_link_def falsy_def short_url_def ex_encodeUrl_def)

text \<open>
  Claim C4 as written makes the redirect exactly the stored target and lets the scan carry
  whatever user agent the caller supplied. A link created for the target \<open>back\<close> redirects
  a request without referrer to \<open>/\<close>; a link created for a target with a space in it
  redirects to the target with \<^verbatim>\<open>%20\<close> in its place; and a request to the stored link \<open>a\<close>
  whose \<^verbatim>\<open>User-Agent\<close> header is present and empty is recorded with the user agent
  \<open>unknown\<close>, not with the empty string it supplied.
\<close>

theorem resolve_link_counterexample:
  "post_api_links None ''k'' ((2024, 1, 3), (0, 0, 0)) (Some ''back'') (ex_db ''false'')
     = (ex_db ''false''\<lparr>tbl_links := ex_links @
          [\<lparr>l_id = ''k'', target_url = ''back'', created_at = ((2024, 1, 3), (0, 0, 0))\<rparr>]\<rparr>,
        Created ''k'' ''http://localhost:3000/s/k'') \<and>
   snd (get_s ex_encodeUrl ''k'' (Some ''ua'') None ((2024, 1, 4), (0, 0, 0))
         (fst (post_api_links None ''k'' ((2024, 1, 3), (0, 0, 0)) (Some ''back'') (ex_db ''false''))))
     = Redirect ''/'' \<and>
   snd (get_s ex_encodeUrl ''k'' (Some ''ua'') None ((2024, 1, 4), (0, 0, 0))
         (fst (post_api_links None ''k'' ((2024, 1, 3), (0, 0, 0)) (Some ''http://y.test/a b'') (ex_db ''false''))))
     = Redirect ''http://y.test/a%20b'' \<and>
   select_link ''a'' (ex_db ''false'') = Some (hd ex_links) \<and>
   map user_agent (tbl_scans (fst (get_s ex_encodeUrl ''a'' (Some []) None ((2024, 1, 4), (0, 0, 0)) (ex_db ''false''))))
     = map user_agent (tbl_scans (ex_db ''false'')) @ [''unknown'']"
  by (simp add: ex_defs select_link_def get_s_def res_redirect_def insert_scan_def or_else_def
        post_api_links_def insert_link_def falsy_def short_url_def ex_encodeUrl_def)

subsection \<open>The freemium gate\<close>

lemma length_order_by_desc: "length (order_by_desc k xs) = length xs"
  by (simp add: order_by_desc_def)

lemma length_select_links_with_count: "length (select_links_with_count d) = length (tbl_links d)"
  by (simp add: select_links_with_count_def length_order_by_desc)

text \<open>
  Claim C6. Whenever the flag row can be read, the listing answers with a part of the
  newest-first list \<open>select_links_with_count\<close> and leaves the database as it was. When
  the flag is not \<open>true\<close> and the list holds more than 2 links, the answer is exactly the
  first 2 entries with \<open>hiddenCount\<close> the total minus 2; otherwise it is the entire list with
  \<open>hiddenCount\<close> 0. In both cases the shown entries are a prefix of the full list,
  unchanged and in its order, and shown plus hidden is the total.
\<close>

theorem freemium_gate:
  "select_is_pro d = Some v \<longrightarrow>
     (\<exists>r. get_api_links d = (d, Links r) \<and>
        (if v \<noteq> ''true'' \<and> 2 < length (select_links_with_count d)
         then links r = take 2 (select_links_with_count d) \<and>
              hiddenCount r = length (select_links_with_count d) - 2 \<and>
              length (links r) = 2
         else links r = select_links_with_count d \<and> hiddenCount r = 0) \<and>
        totalCount r = length (tbl_links d) \<and>
        length (links r) + hiddenCount r = totalCount r \<and>
        links r = take (length (links r)) (select_links_with_count d))"
  by (auto simp add: get_api_links_def Let_def length_select_links_with_count)

theorem freemium_gate_witness:
  "(\<exists>r. get_api_links (ex_db ''false'') = (ex_db ''false'', Links r) \<and>
        map (l_id \<circ> fst) (links r) = [''e'', ''d''] \<and> hiddenCount r = 3 \<and> totalCount r = 5) \<and>
   (\<exists>r. get_api_links (ex_db ''true'') = (ex_db ''true'', Links r) \<and>
        map (l_id \<circ> fst) (links r) = [''e'', ''d'', ''c'', ''b'', ''a''] \<and> hiddenCount r = 0)"
  using freemium_gate [of "ex_db ''false''" "''false''"] freemium_gate [of "ex_db ''true''" "''true''"]
  by (simp add: ex_db_def ex_links_def ex_scans_def select_is_pro_def get_api_links_def
        select_links_with_count_def order_by_desc_def)

text \<open>
  Claim C10. On the branch that returns the full list, which is taken when the stored flag
  is \<open>true\<close> or when at most 2 links are stored, the \<open>isPro\<close> field of the answer is
  \<open>True\<close> whatever the stored flag is: an instance that is not pro and stores at most 2
  links is reported as pro. Only the truncated branch reports \<open>False\<close>, which is the stored
  flag there.
\<close>

theorem reported_is_pro:
  "select_is_pro d = Some v \<longrightarrow>
     (\<exists>r. get_api_links d = (d, Links r) \<and>
        (v = ''true'' \<or> length (tbl_links d) \<le> 2 \<longrightarrow>
           isPro r \<and> links r = select_links_with_count d) \<and>
        (v \<noteq> ''true'' \<and> length (tbl_links d) \<le> 2 \<longrightarrow> isPro r \<and> \<not> is_pro d) \<and>
        (v \<noteq> ''true'' \<and> 2 < length (tbl_links d) \<longrightarrow>
           \<not> isPro r \<and> \<not> is_pro d \<and> links r = take 2 (select_links_with_count d)))"
  by (auto simp add: get_api_links_def Let_def length_select_links_with_count is_pro_def)

theorem reported_is_pro_witness:
  "\<not> is_pro ex_small \<and> get_api_pro_status ex_small = (ex_small, Pro_Status False) \<and>
   (\<exists>r. get_api_links ex_small = (ex_small, Links r) \<and> isPro r \<and> length (links r) = 2) \<and>
   (\<exists>r. get_api_links (ex_db ''false'') = (ex_db ''false'', Links r) \<and> \<not> isPro r) \<and>
   (\<exists>r. get_api_links (ex_db ''true'') = (ex_db ''true'', Links r) \<and> isPro r)"
  using reported_is_pro [of ex_small "''false''"] reported_is_pro [of "ex_db ''false''" "''false''"]
    reported_is_pro [of "ex_db ''true''" "''true''"]
  by (simp add: ex_small_def ex_db_def ex_links_def ex_scans_def select_is_pro_def get_api_links_def
        select_links_with_count_def order_by_desc_def is_pro_def get_api_pro_status_def)

subsection \<open>The pro flag\<close>

lemma map_of_update_flag:
  "map_of (map (\<lambda>(k, v). if k = K then (k, T) else (k, v)) xs) K =
     (case map_of xs K of None \<Rightarrow> None | Some v \<Rightarrow> Some T)"
  by (induction xs) auto

lemma select_is_pro_update:
  "select_is_pro (update_is_pro d) = (case select_is_pro d of None \<Rightarrow> None | Some v \<Rightarrow> Some ''true'')"
  by (simp add: select_is_pro_def update_is_pro_def map_of_update_flag)

lemma update_is_pro_idem: "update_is_pro (update_is_pro d) = update_is_pro d"
  by (simp add: update_is_pro_def comp_def case_prod_beta)

lemma select_is_pro_initialize:
  "select_is_pro (initialize d) = (case select_is_pro d of None \<Rightarrow> Some ''false'' | Some v \<Rightarrow> Some v)"
proof (cases "''is_pro'' \<in> set (map fst (tbl_settings d))")
  case True
  then obtain v where "map_of (tbl_settings d) ''is_pro'' = Some v"
    by (metis map_of_eq_None_iff not_Some_eq set_map)
  with True show ?thesis by (simp add: initialize_def select_is_pro_def)
next
  case False
  then have "map_of (tbl_settings d) ''is_pro'' = None"
    by (simp add: map_of_eq_None_iff)
  with False show ?thesis by (simp add: initialize_def select_is_pro_def map_add_def)
qed

lemma select_is_pro_handle:
  "select_is_pro (fst (handle e r d)) =
     (if r = completed then (case select_is_pro d of None \<Rightarrow> None | Some v \<Rightarrow> Some ''true'')
      else select_is_pro d)"
proof (cases r)
  case (POST_webhook ev)
  then show ?thesis
    by (cases ev) (auto simp: post_api_webhook_def completed_def select_is_pro_update)
next
  case (POST_links n t u)
  then show ?thesis
    by (auto simp: completed_def post_api_links_def insert_link_def select_is_pro_def split: option.splits)
next
  case (DELETE_links i)
  then show ?thesis
    by (auto simp: completed_def delete_api_links_def delete_links_def delete_scans_def
          select_is_pro_def Let_def)
next
  case (GET_s i ua referrer now)
  then show ?thesis
    by (auto simp: completed_def get_s_def insert_scan_def select_is_pro_def split: option.splits)
qed (auto simp: completed_def get_api_pro_status_def post_api_checkout_def get_api_analytics_def
       get_api_links_def Let_def split: option.splits sum.splits)

lemma select_is_pro_step:
  "select_is_pro (step e ev d) =
     (case ev of
        Start \<Rightarrow> (case select_is_pro d of None \<Rightarrow> Some ''false'' | Some v \<Rightarrow> Some v)
      | Request r \<Rightarrow>
          if r = completed then (case select_is_pro d of None \<Rightarrow> None | Some v \<Rightarrow> Some ''true'')
          else select_is_pro d)"
  by (cases ev) (simp_all add: select_is_pro_handle select_is_pro_initialize)

lemma is_pro_step: "is_pro d \<Longrightarrow> is_pro (step e ev d)"
  by (simp add: is_pro_def select_is_pro_step split: event.splits)

lemma is_pro_run: "is_pro d \<Longrightarrow> is_pro (run e evs d)"
  by (induction evs arbitrary: d) (simp_all add: is_pro_step)

lemma is_pro_step_only: "\<not> is_pro d \<Longrightarrow> is_pro (step e ev d) \<Longrightarrow> ev = Request completed"
  by (auto simp: is_pro_def select_is_pro_step split: event.splits if_splits option.splits)

lemma is_pro_run_only: "\<not> is_pro d \<Longrightarrow> is_pro (run e evs d) \<Longrightarrow> Request completed \<in> set evs"
proof (induction evs arbitrary: d)
  case Nil
  then show ?case by simp
next
  case (Cons ev evs)
  show ?case
  proof (cases "is_pro (step e ev d)")
    case True
    with Cons.prems have "ev = Request completed" by (simp add: is_pro_step_only)
    then show ?thesis by simp
  next
    case False
    with Cons show ?thesis by simp
  qed
qed

lemma flag_row_run: "select_is_pro d \<noteq> None \<Longrightarrow> select_is_pro (run e evs d) \<noteq> None"
  by (induction evs arbitrary: d)
     (auto simp: select_is_pro_step split: event.splits option.splits if_splits)

lemma run_append: "run e (evs @ evs') d = run e evs' (run e evs d)"
  by (induction evs arbitrary: d) simp_all

text \<open>
  Claim C9. A fresh database starts with the flag \<open>false\<close>. No request, no start of the
  server and no sequence of them takes a database whose flag is \<open>true\<close> to one whose flag
  is not. A step that takes the flag from not \<open>true\<close> to \<open>true\<close> is the webhook with a
  verified \<^verbatim>\<open>checkout.session.completed\<close> event, and a run that does so contains that
  request. From a fresh database, any run in which that request occurs ends with the flag
  \<open>true\<close>. The request never errors, and repeating it changes nothing.
\<close>

theorem pro_status:
  "select_is_pro (initialize empty_db) = Some ''false'' \<and>
   (is_pro d \<longrightarrow> is_pro (step e ev d) \<and> is_pro (run e evs d)) \<and>
   (\<not> is_pro d \<and> is_pro (step e ev d) \<longrightarrow> ev = Request completed) \<and>
   (\<not> is_pro d \<and> is_pro (run e evs d) \<longrightarrow> Request completed \<in> set evs) \<and>
   is_pro (run e (evs @ Request completed # evs') (initialize empty_db)) \<and>
   snd (handle e completed d) = Received \<and>
   handle e completed (fst (handle e completed d)) = (fst (handle e completed d), Received)"
proof (intro conjI impI)
  show "select_is_pro (initialize empty_db) = Some ''false''"
    by (simp add: initialize_def empty_db_def select_is_pro_def)
  then have "select_is_pro (run e evs (initialize empty_db)) \<noteq> None"
    by (intro flag_row_run) simp
  then have "is_pro (step e (Request completed) (run e evs (initialize empty_db)))"
    by (auto simp: is_pro_def select_is_pro_handle)
  then show "is_pro (run e (evs @ Request completed # evs') (initialize empty_db))"
    by (simp add: run_append is_pro_run)
  show "snd (handle e completed d) = Received"
    by (simp add: completed_def post_api_webhook_def)
  show "handle e completed (fst (handle e completed d)) = (fst (handle e completed d), Received)"
    by (simp add: completed_def post_api_webhook_def update_is_pro_idem)
qed (auto simp: is_pro_step is_pro_run is_pro_step_only is_pro_run_only)

theorem pro_status_witness:
  "is_pro (ex_db ''true'') \<and>
   is_pro (step ex_env (Request (DELETE_links ''a'')) (ex_db ''true'')) \<and>
   is_pro (run ex_env [Start, Request GET_links, Request (POST_webhook (Inr ''refund''))] (ex_db ''true'')) \<and>
   \<not> is_pro (ex_db ''false'') \<and>
   is_pro (step ex_env (Request completed) (ex_db ''false'')) \<and>
   is_pro (run ex_env [Request GET_links, Request completed, Start] (ex_db ''false'')) \<and>
   Request completed \<in> set [Request GET_links, Request completed, Start]"
  using pro_status [of "ex_db ''true''" ex_env "Request (DELETE_links ''a'')"
      "[Start, Request GET_links, Request (POST_webhook (Inr ''refund''))]" "[]"]
    pro_status [of "ex_db ''false''" ex_env "Request completed"
      "[Request GET_links, Request completed, Start]" "[]"]
  by (simp add: ex_db_def is_pro_def select_is_pro_def completed_def post_api_webhook_def
        update_is_pro_def get_api_links_def initialize_def Let_def)

subsection \<open>Listing the links\<close>

lemma mset_order_by_desc: "mset (order_by_desc k xs) = mset xs"
  by (simp add: order_by_desc_def)

lemma mset_select_links_with_count:
  "mset (select_links_with_count d) =
     mset (map (\<lambda>l. (l, length (filter (\<lambda>s. link_id s = l_id l) (tbl_scans d)))) (tbl_links d))"
  by (simp add: select_links_with_count_def mset_order_by_desc)

lemma set_order_by_desc: "set (order_by_desc k xs) = set xs"
  by (simp add: order_by_desc_def)

lemma sorted_order_by_desc: "sorted_wrt (\<lambda>a b. k b \<le> k a) (order_by_desc k xs)"
proof -
  have "sorted (map k (sort_key k (rev xs)))" by (rule sorted_sort_key)
  then have "sorted_wrt (\<lambda>a b. k a \<le> k b) (sort_key k (rev xs))"
    by (simp add: sorted_wrt_map)
  then show ?thesis
    by (simp add: order_by_desc_def sorted_wrt_rev)
qed

lemma order_by_desc_three:
  assumes "mset xs = mset [a, b, c]" and "k a < k b" and "k b < k c"
  shows "order_by_desc k xs = [c, b, a]"
proof -
  have m: "mset [a, b, c] = mset (rev xs)" using assms(1) by simp
  have f: "filter (\<lambda>x. k y = k x) [a, b, c] = filter (\<lambda>x. k y = k x) (rev xs)"
    if "y \<in> set [a, b, c]" for y
  proof -
    have "mset (filter (\<lambda>x. k y = k x) (rev xs)) = mset (filter (\<lambda>x. k y = k x) [a, b, c])"
      using m by (simp only: mset_filter)
    moreover have "\<exists>z. filter (\<lambda>x. k y = k x) [a, b, c] = [z]"
      using that assms(2,3) by auto
    ultimately show ?thesis
      by (metis mset_single_iff_right mset.simps(1) mset.simps(2) add_mset_commute)
  qed
  have "sort_key k (rev xs) = [a, b, c]"
    using m f assms(2,3) by (intro properties_for_sort_key) auto
  then show ?thesis by (simp add: order_by_desc_def)
qed

text \<open>
  Claim C7. The listing query returns the stored links, each exactly once, newest creation
  first; links stored in the order \<open>l1\<close>, \<open>l2\<close>, \<open>l3\<close> with strictly increasing creation
  times come back as \<open>l3\<close>, \<open>l2\<close>, \<open>l1\<close>. Each entry carries the number of scan rows
  stored for its link at the time of the query: a link without scans is listed with count
  0, and right after a resolution of a link its entry shows one scan more.
\<close>

theorem list_links:
  "mset (map fst (select_links_with_count d)) = mset (tbl_links d) \<and>
   sorted_wrt (\<lambda>a b. created_at (fst b) \<le> created_at (fst a)) (select_links_with_count d) \<and>
   (\<forall>(l, c) \<in> set (select_links_with_count d).
       c = length (filter (\<lambda>s. link_id s = l_id l) (tbl_scans d))) \<and>
   (\<forall>l \<in> set (tbl_links d). l_id l \<notin> link_id ` set (tbl_scans d) \<longrightarrow>
       (l, 0) \<in> set (select_links_with_count d)) \<and>
   (tbl_links d = [l1, l2, l3] \<and> created_at l1 < created_at l2 \<and> created_at l2 < created_at l3 \<longrightarrow>
       map fst (select_links_with_count d) = [l3, l2, l1]) \<and>
   (select_link i d = Some link \<longrightarrow>
       (link, Suc (length (filter (\<lambda>s. link_id s = i) (tbl_scans d))))
         \<in> set (select_links_with_count (fst (get_s enc i ua ref now d))))"
proof (intro conjI)
  let ?cnt = "\<lambda>l. length (filter (\<lambda>s. link_id s = l_id l) (tbl_scans d))"
  have rows: "select_links_with_count d =
      order_by_desc (\<lambda>(l, c). created_at l)
        (map (\<lambda>l. (l, ?cnt l)) (sort_key l_id (tbl_links d)))"
    by (simp add: select_links_with_count_def)
  have "mset (map fst (select_links_with_count d)) = image_mset fst (mset (map (\<lambda>l. (l, ?cnt l)) (tbl_links d)))"
    by (simp only: mset_map mset_select_links_with_count)
  then show "mset (map fst (select_links_with_count d)) = mset (tbl_links d)"
    by (simp add: multiset.map_comp comp_def)
  have "sorted_wrt (\<lambda>a b. (\<lambda>(l, c). created_at l) b \<le> (\<lambda>(l, c). created_at l) a) (select_links_with_count d)"
    unfolding rows by (rule sorted_order_by_desc)
  then show "sorted_wrt (\<lambda>a b. created_at (fst b) \<le> created_at (fst a)) (select_links_with_count d)"
    by (simp add: case_prod_beta)
  have set_rows: "set (select_links_with_count d) = (\<lambda>l. (l, ?cnt l)) ` set (tbl_links d)"
    unfolding rows by (simp add: set_order_by_desc)
  show "\<forall>(l, c) \<in> set (select_links_with_count d). c = ?cnt l"
    unfolding set_rows by auto
  show "\<forall>l \<in> set (tbl_links d). l_id l \<notin> link_id ` set (tbl_scans d) \<longrightarrow>
       (l, 0) \<in> set (select_links_with_count d)"
  proof (intro ballI impI)
    fix l assume l: "l \<in> set (tbl_links d)" and no: "l_id l \<notin> link_id ` set (tbl_scans d)"
    from no have "\<forall>s \<in> set (tbl_scans d). link_id s \<noteq> l_id l"
      by (metis imageI)
    then have "filter (\<lambda>s. link_id s = l_id l) (tbl_scans d) = []"
      by (simp add: filter_empty_conv)
    then have "?cnt l = 0" by simp
    with l show "(l, 0) \<in> set (select_links_with_count d)"
      unfolding set_rows by force
  qed
  show "tbl_links d = [l1, l2, l3] \<and> created_at l1 < created_at l2 \<and> created_at l2 < created_at l3 \<longrightarrow>
       map fst (select_links_with_count d) = [l3, l2, l1]"
  proof
    assume a: "tbl_links d = [l1, l2, l3] \<and> created_at l1 < created_at l2 \<and> created_at l2 < created_at l3"
    then have "mset (map (\<lambda>l. (l, ?cnt l)) (sort_key l_id (tbl_links d)))
        = mset [(l1, ?cnt l1), (l2, ?cnt l2), (l3, ?cnt l3)]"
      by (simp only: mset_map mset_sort) simp
    then have "select_links_with_count d = [(l3, ?cnt l3), (l2, ?cnt l2), (l1, ?cnt l1)]"
      unfolding rows using a by (intro order_by_desc_three) simp_all
    then show "map fst (select_links_with_count d) = [l3, l2, l1]" by simp
  qed
  show "select_link i d = Some link \<longrightarrow>
       (link, Suc (length (filter (\<lambda>s. link_id s = i) (tbl_scans d))))
         \<in> set (select_links_with_count (fst (get_s enc i ua ref now d)))"
  proof
    assume sel: "select_link i d = Some link"
    then have mem: "link \<in> set (tbl_links d)" and lid: "l_id link = i"
      using select_link_Some by blast+
    from sel have d': "fst (get_s enc i ua ref now d) = insert_scan i (or_else ua ''unknown'') now d"
      by (simp add: get_s_def)
    have "set (select_links_with_count (insert_scan i (or_else ua ''unknown'') now d)) =
        (\<lambda>l. (l, length (filter (\<lambda>s. link_id s = l_id l)
                 (tbl_scans (insert_scan i (or_else ua ''unknown'') now d))))) ` set (tbl_links d)"
      by (simp add: select_links_with_count_def set_order_by_desc insert_scan_def)
    moreover have "length (filter (\<lambda>s. link_id s = l_id link)
                 (tbl_scans (insert_scan i (or_else ua ''unknown'') now d)))
           = Suc (length (filter (\<lambda>s. link_id s = i) (tbl_scans d)))"
      by (simp add: insert_scan_def lid)
    ultimately show "(link, Suc (length (filter (\<lambda>s. link_id s = i) (tbl_scans d))))
         \<in> set (select_links_with_count (fst (get_s enc i ua ref now d)))"
      unfolding d' using mem by force
  qed
qed

theorem list_links_witness:
  "map (\<lambda>(l, c). (l_id l, c)) (select_links_with_count (ex_db ''true''))
     = [(''e'', 0), (''d'', 0), (''c'', 0), (''b'', 1), (''a'', 3)] \<and>
   map (l_id \<circ> fst) (select_links_with_count (ex_db ''true''\<lparr>tbl_links := take 3 ex_links\<rparr>))
     = [''c'', ''b'', ''a''] \<and>
   (hd ex_links, 4) \<in> set (select_links_with_count
       (fst (get_s ex_encodeUrl ''a'' None None ((2024, 3, 1), (0, 0, 0)) (ex_db ''true''))))"
  using list_links [of "ex_db ''true''\<lparr>tbl_links := take 3 ex_links\<rparr>" "ex_links ! 0" "ex_links ! 1" "ex_links ! 2"
      "''zz''" "hd ex_links" ex_encodeUrl None None "((2024, 3, 1), (0, 0, 0))"]
    list_links [of "ex_db ''true''" "ex_links ! 0" "ex_links ! 1" "ex_links ! 2" "''a''" "hd ex_links"
      ex_encodeUrl None None "((2024, 3, 1), (0, 0, 0))"]
  by (simp add: ex_db_def ex_links_def ex_scans_def select_links_with_count_def order_by_desc_def
        select_link_def get_s_def insert_scan_def or_else_def)

subsection \<open>The detail of one link\<close>

lemma group_count_keys: "map fst (group_count ks) = sort (remdups ks)"
  by (simp add: group_count_def comp_def)

lemma group_count_sorted: "sorted (map fst (group_count ks))"
  by (simp add: group_count_keys)

lemma group_count_distinct: "distinct (map fst (group_count ks))"
  by (simp add: group_count_keys)

lemma group_count_set: "set (group_count ks) = (\<lambda>k. (k, count_list ks k)) ` set ks"
  by (simp add: group_count_def)

lemma count_list_map_filter: "count_list (map f xs) k = length (filter (\<lambda>x. f x = k) xs)"
  by (induction xs) auto

lemma length_filter_mset_eq:
  assumes "mset xs = mset ys"
  shows "length (filter P xs) = length (filter P ys)"
proof -
  have "size (mset (filter P xs)) = size (mset (filter P ys))"
    using assms by simp
  then show ?thesis by (simp only: size_mset)
qed

text \<open>
  Claim C8. For the id of a stored link, the detail query answers with a stored link of
  that id (the link itself when the ids are distinct, as the primary key keeps them), with
  exactly the scan rows of that id ordered newest first, and with the per-date counts: the
  dates are strictly ascending, they are exactly the dates on which the id has a scan, and
  each count is the number of the id's scans on that date, so it is positive. For an id
  that no stored link has, the answer is not-found. The database is left as it is.
\<close>

theorem get_detail:
  "(l \<in> set (tbl_links d) \<and> l_id l = i \<longrightarrow>
      (\<exists>link scs chart. get_api_analytics i d = (d, Analytics link scs chart) \<and>
         l_id link = i \<and> link \<in> set (tbl_links d) \<and>
         (distinct (map l_id (tbl_links d)) \<longrightarrow> link = l) \<and>
         mset scs = mset (filter (\<lambda>s. link_id s = i) (tbl_scans d)) \<and>
         sorted_wrt (\<lambda>a b. scanned_at b \<le> scanned_at a) scs \<and>
         sorted (map fst chart) \<and> distinct (map fst chart) \<and>
         set (map fst chart) = (\<lambda>s. date (scanned_at s)) ` set scs \<and>
         (\<forall>(dt, c) \<in> set chart.
             c = length (filter (\<lambda>s. date (scanned_at s) = dt) scs) \<and> 0 < c))) \<and>
   (i \<notin> l_id ` set (tbl_links d) \<longrightarrow> get_api_analytics i d = (d, Not_Found))"
proof (intro conjI impI)
  assume a: "l \<in> set (tbl_links d) \<and> l_id l = i"
  then obtain link where sel: "select_link i d = Some link"
    using select_link_stored by blast
  then have 0: "l_id link = i" "link \<in> set (tbl_links d)"
    using select_link_Some by blast+
  have uniq: "distinct (map l_id (tbl_links d)) \<longrightarrow> link = l"
    using a sel select_link_unique by blast
  let ?evs = "filter (\<lambda>s. link_id s = i) (tbl_scans d)"
  let ?ks = "map (\<lambda>s. date (scanned_at s)) ?evs"
  let ?scs = "select_scans i d"
  let ?chart = "select_chart i d"
  have m: "mset ?scs = mset ?evs"
    by (simp only: select_scans_def mset_order_by_desc)
  then have s: "set ?scs = set ?evs" by (rule mset_eq_setD)
  have 1: "get_api_analytics i d = (d, Analytics link ?scs ?chart)"
    using sel by (simp add: get_api_analytics_def)
  have 2: "sorted_wrt (\<lambda>a b. scanned_at b \<le> scanned_at a) ?scs"
    unfolding select_scans_def by (rule sorted_order_by_desc)
  have 3: "sorted (map fst ?chart)" "distinct (map fst ?chart)"
    unfolding select_chart_def by (rule group_count_sorted, rule group_count_distinct)
  have 4: "set (map fst ?chart) = (\<lambda>s. date (scanned_at s)) ` set ?scs"
    unfolding s by (simp add: select_chart_def group_count_keys)
  have 5: "\<forall>(dt, c) \<in> set ?chart.
             c = length (filter (\<lambda>s. date (scanned_at s) = dt) ?scs) \<and> 0 < c"
  proof (clarify, rule conjI)
    fix dt c assume "(dt, c) \<in> set ?chart"
    then have dt: "dt \<in> set ?ks" and c: "c = count_list ?ks dt"
      by (auto simp: select_chart_def group_count_set)
    have "count_list ?ks dt = length (filter (\<lambda>s. date (scanned_at s) = dt) ?evs)"
      by (rule count_list_map_filter)
    also have "\<dots> = length (filter (\<lambda>s. date (scanned_at s) = dt) ?scs)"
      using m by (intro length_filter_mset_eq) simp
    finally show "c = length (filter (\<lambda>s. date (scanned_at s) = dt) ?scs)"
      using c by simp
    from dt have "count_list ?ks dt \<noteq> 0" by (simp only: count_list_0_iff not_not)
    with c show "0 < c" by simp
  qed
  from 0 uniq 1 m 2 3 4 5
  show "\<exists>link scs chart. get_api_analytics i d = (d, Analytics link scs chart) \<and>
         l_id link = i \<and> link \<in> set (tbl_links d) \<and>
         (distinct (map l_id (tbl_links d)) \<longrightarrow> link = l) \<and>
         mset scs = mset (filter (\<lambda>s. link_id s = i) (tbl_scans d)) \<and>
         sorted_wrt (\<lambda>a b. scanned_at b \<le> scanned_at a) scs \<and>
         sorted (map fst chart) \<and> distinct (map fst chart) \<and>
         set (map fst chart) = (\<lambda>s. date (scanned_at s)) ` set scs \<and>
         (\<forall>(dt, c) \<in> set chart.
             c = length (filter (\<lambda>s. date (scanned_at s) = dt) scs) \<and> 0 < c)"
    by blast
next
  assume "i \<notin> l_id ` set (tbl_links d)"
  then have "select_link i d = None" by (simp add: select_link_None)
  then show "get_api_analytics i d = (d, Not_Found)"
    by (simp add: get_api_analytics_def)
qed

theorem get_detail_witness:
  "(\<exists>scs. get_api_analytics ''a'' (ex_db ''true'')
       = (ex_db ''true'', Analytics (hd ex_links) scs [((2024, 1, 1), 2), ((2024, 1, 3), 1)]) \<and>
       map s_id scs = [4, 3, 1]) \<and>
   (\<exists>scs. get_api_analytics ''b'' (ex_db ''true'')
       = (ex_db ''true'', Analytics (ex_links ! 1) scs [((2024, 1, 1), 1)]) \<and> map s_id scs = [2]) \<and>
   get_api_analytics ''e'' (ex_db ''true'') = (ex_db ''true'', Analytics (ex_links ! 4) [] []) \<and>
   get_api_analytics ''zz'' (ex_db ''true'') = (ex_db ''true'', Not_Found)"
  using get_detail [of "ex_links ! 0" "ex_db ''true''" "''a''"]
    get_detail [of "ex_links ! 1" "ex_db ''true''" "''b''"]
    get_detail [of "ex_links ! 4" "ex_db ''true''" "''e''"]
    get_detail [of "ex_links ! 0" "ex_db ''true''" "''zz''"]
  by (simp add: ex_db_def ex_links_def ex_scans_def select_link_def get_api_analytics_def
        select_scans_def select_chart_def group_count_def order_by_desc_def date_def)

subsection \<open>Deleting a link\<close>

lemma delete_api_links_tables:
  "tbl_scans (fst (delete_api_links fk i d)) = filter (\<lambda>s. link_id s \<noteq> i) (tbl_scans d)"
  "tbl_links (fst (delete_api_links fk i d)) = filter (\<lambda>l. l_id l \<noteq> i) (tbl_links d)"
  "tbl_settings (fst (delete_api_links fk i d)) = tbl_settings d"
  "scan_seq (fst (delete_api_links fk i d)) = scan_seq d"
  by (simp_all add: delete_api_links_def delete_links_def delete_scans_def Let_def)

lemma delete_api_links_response:
  "snd (delete_api_links fk i d) = (if i \<in> l_id ` set (tbl_links d) then Success else Not_Found)"
proof -
  have "i \<in> l_id ` set (tbl_links d) \<longleftrightarrow> filter (\<lambda>l. l_id l = i) (tbl_links d) \<noteq> []"
    by (auto simp: filter_empty_conv)
  then show ?thesis
    by (simp add: delete_api_links_def delete_links_def delete_scans_def Let_def)
qed

lemma delete_api_links_unchanged:
  assumes "i \<notin> l_id ` set (tbl_links d)" and "no_orphans d"
  shows "fst (delete_api_links fk i d) = d"
proof -
  from assms(1) have fresh: "i \<notin> set (map l_id (tbl_links d))"
    by simp
  then have l: "filter (\<lambda>l. l_id l \<noteq> i) (tbl_links d) = tbl_links d"
    by (auto simp: filter_id_conv)
  from assms(2) fresh have s: "filter (\<lambda>s. link_id s \<noteq> i) (tbl_scans d) = tbl_scans d"
    by (auto simp: filter_id_conv no_orphans_def list_all_iff)
  from fresh have "filter (\<lambda>l. l_id l = i) (tbl_links d) = []"
    by (auto simp: filter_empty_conv)
  then show ?thesis
    by (simp add: delete_api_links_def delete_links_def delete_scans_def Let_def l s)
qed

lemma delete_api_links_file_states:
  "file_states (delete_api_links_work fk i) d = [d, delete_scans i d, fst (delete_api_links fk i d)]"
  "file_states (Transaction (delete_api_links_stmts fk i)) d = [d, fst (delete_api_links fk i d)]"
  by (simp_all add: delete_api_links_work_def delete_api_links_stmts_def delete_api_links_def
        Let_def split: prod.splits)

lemma no_orphans_handle: "no_orphans d \<Longrightarrow> no_orphans (fst (handle e r d))"
proof (cases r)
  case (POST_webhook ev)
  assume "no_orphans d"
  with POST_webhook show ?thesis
    by (cases ev) (auto simp: post_api_webhook_def update_is_pro_def no_orphans_def)
next
  case (POST_links n t u)
  assume "no_orphans d"
  with POST_links show ?thesis
    by (auto simp: post_api_links_def insert_link_def no_orphans_def list_all_iff split: option.splits)
next
  case (DELETE_links i)
  assume "no_orphans d"
  then have "no_orphans (fst (delete_api_links (foreign_keys e) i d))"
    unfolding no_orphans_def list_all_iff delete_api_links_tables by auto
  with DELETE_links show ?thesis by simp
next
  case (GET_s i ua referrer now)
  assume "no_orphans d"
  with GET_s show ?thesis
    by (auto simp: get_s_def insert_scan_def no_orphans_def list_all_iff
        dest: select_link_Some split: option.splits)
qed (auto simp: get_api_pro_status_def post_api_checkout_def get_api_analytics_def
       get_api_links_def Let_def split: option.splits sum.splits)

lemma no_orphans_step:
  assumes "no_orphans d"
  shows "no_orphans (step e ev d)"
proof (cases ev)
  case (Request r)
  with assms show ?thesis by (simp add: no_orphans_handle)
next
  case Start
  with assms show ?thesis by (auto simp: initialize_def no_orphans_def)
qed

lemma no_orphans_run: "no_orphans d \<Longrightarrow> no_orphans (run e evs d)"
  by (induction evs arbitrary: d) (simp_all add: no_orphans_step)

text \<open>
  Claim C5, as the code has it. Deleting answers success when the id is that of a stored
  link and not-found otherwise. Afterwards no scan row and no link row with that id is
  stored, the other rows and the settings are as before, and the detail query for the id
  answers not-found. In every database reached from a fresh one by requests and starts
  every scan references a stored link, and in such a database the not-found outcome changes
  nothing. The removal is not one atomic unit of the database: the handler runs its two
  statements in autocommit mode, so the database file passes through three contents, the
  one before, the one after \<open>delete_scans\<close>, in which the scans of the id are gone and the
  links are as before, and the one after both; in one transaction the same statements
  would take the file through the first and the last only. The next request the server
  answers is served from the content after both statements.
\<close>

theorem delete_link:
  "snd (delete_api_links fk i d) = (if i \<in> l_id ` set (tbl_links d) then Success else Not_Found) \<and>
   tbl_scans (fst (delete_api_links fk i d)) = filter (\<lambda>s. link_id s \<noteq> i) (tbl_scans d) \<and>
   tbl_links (fst (delete_api_links fk i d)) = filter (\<lambda>l. l_id l \<noteq> i) (tbl_links d) \<and>
   tbl_settings (fst (delete_api_links fk i d)) = tbl_settings d \<and>
   get_api_analytics i (fst (delete_api_links fk i d)) = (fst (delete_api_links fk i d), Not_Found) \<and>
   no_orphans (run e evs (initialize empty_db)) \<and>
   (no_orphans d \<longrightarrow> no_orphans (step e ev d)) \<and>
   (i \<notin> l_id ` set (tbl_links d) \<and> no_orphans d \<longrightarrow> fst (delete_api_links fk i d) = d) \<and>
   file_states (delete_api_links_work fk i) d
     = [d, delete_scans i d, fst (delete_api_links fk i d)] \<and>
   tbl_links (delete_scans i d) = tbl_links d \<and>
   tbl_scans (delete_scans i d) = filter (\<lambda>s. link_id s \<noteq> i) (tbl_scans d) \<and>
   file_states (Transaction (delete_api_links_stmts fk i)) d = [d, fst (delete_api_links fk i d)] \<and>
   run e (Request (DELETE_links i) # evs) d = run e evs (fst (delete_api_links (foreign_keys e) i d))"
proof (intro conjI impI)
  show "get_api_analytics i (fst (delete_api_links fk i d)) = (fst (delete_api_links fk i d), Not_Found)"
  proof -
    have "select_link i (fst (delete_api_links fk i d)) = None"
      unfolding select_link_None delete_api_links_tables by auto
    then show ?thesis by (simp add: get_api_analytics_def)
  qed
  have "no_orphans (initialize empty_db)"
    by (simp add: no_orphans_def initialize_def empty_db_def)
  then show "no_orphans (run e evs (initialize empty_db))" by (rule no_orphans_run)
  show "file_states (delete_api_links_work fk i) d
     = [d, delete_scans i d, fst (delete_api_links fk i d)]"
    by (rule delete_api_links_file_states)
  show "file_states (Transaction (delete_api_links_stmts fk i)) d = [d, fst (delete_api_links fk i d)]"
    by (rule delete_api_links_file_states)
qed (simp_all add: delete_api_links_tables delete_api_links_response no_orphans_step
       delete_api_links_unchanged delete_scans_def)

theorem delete_link_witness:
  "delete_api_links True ''a'' (ex_db ''true'') =
     (ex_db ''true''\<lparr>tbl_links := tl ex_links, tbl_scans := [ex_scans ! 1]\<rparr>, Success) \<and>
   no_orphans (ex_db ''true'') \<and>
   no_orphans (step ex_env (Request (DELETE_links ''b'')) (ex_db ''true'')) \<and>
   delete_api_links False ''zz'' (ex_db ''true'') = (ex_db ''true'', Not_Found)"
  using delete_link [of True "''a''" "ex_db ''true''" ex_env "[]" "Request (DELETE_links ''b'')"]
    delete_link [of False "''zz''" "ex_db ''true''" ex_env "[]" "Request (DELETE_links ''b'')"]
  by (simp add: ex_db_def ex_links_def ex_scans_def ex_env_def select_link_def no_orphans_def
      delete_api_links_def delete_links_def delete_scans_def Let_def)

text \<open>
  Claim C5 as written makes the two removals one atomic unit with no intermediate state to
  be seen. Deleting link \<open>a\<close> of the example database, the second content of the database
  file is neither the content before nor the content after: link \<open>a\<close> is still stored and
  its three scans are gone. A reader of the file at that point, or the server started
  again after the process was stopped there, answers the detail query for \<open>a\<close> with the
  link and no scans. In one transaction the same statements leave no such content.
\<close>

theorem delete_link_intermediate_counterexample:
  "file_states (delete_api_links_work True ''a'') (ex_db ''true'') ! 1 \<noteq> ex_db ''true'' \<and>
   file_states (delete_api_links_work True ''a'') (ex_db ''true'') ! 1
     \<noteq> fst (delete_api_links True ''a'' (ex_db ''true'')) \<and>
   map s_id (select_scans ''a'' (ex_db ''true'')) = [4, 3, 1] \<and>
   snd (get_api_analytics ''a'' (file_states (delete_api_links_work True ''a'') (ex_db ''true'') ! 1))
     = Analytics (hd ex_links) [] [] \<and>
   snd (get_api_analytics ''a''
         (initialize (file_states (delete_api_links_work True ''a'') (ex_db ''true'') ! 1)))
     = Analytics (hd ex_links) [] [] \<and>
   file_states (Transaction (delete_api_links_stmts True ''a'')) (ex_db ''true'')
     = [ex_db ''true'', fst (delete_api_links True ''a'' (ex_db ''true''))]"
  by (simp add: ex_db_def ex_links_def ex_scans_def select_link_def initialize_def
      delete_api_links_work_def delete_api_links_stmts_def delete_api_links_def delete_links_def
      delete_scans_def Let_def get_api_analytics_def select_scans_def select_chart_def
      group_count_def order_by_desc_def)

section \<open>Properties of the compositor\<close>

subsection \<open>The dot pass\<close>

lemma col_loop_eq:
  "col_loop m s row col ops =
     ops @ map (dot m s row) (filter (\<lambda>c. \<not> isFinder (m_size m) row c) [col..m_size m - 1])"
proof (induction m s row col ops rule: col_loop.induct)
  case (1 m s row col ops)
  show ?case
  proof (cases "col < m_size m")
    case True
    then have u: "[col..m_size m - 1] = col # [col + 1..m_size m - 1]"
      by (simp add: upto_rec1)
    show ?thesis
      using True "1.IH"[OF True] by (subst col_loop.simps) (simp add: u)
  next
    case False
    then show ?thesis by (subst col_loop.simps) simp
  qed
qed

lemma row_loop_eq:
  "row_loop m s row ops =
     ops @ concat (map (\<lambda>r. map (dot m s r) (filter (\<lambda>c. \<not> isFinder (m_size m) r c) [0..m_size m - 1]))
                    [row..m_size m - 1])"
proof (induction m s row ops rule: row_loop.induct)
  case (1 m s row ops)
  show ?case
  proof (cases "row < m_size m")
    case True
    then have u: "[row..m_size m - 1] = row # [row + 1..m_size m - 1]"
      by (simp add: upto_rec1)
    show ?thesis
      using True "1.IH"[OF True] by (subst row_loop.simps) (simp add: u col_loop_eq)
  next
    case False
    then show ?thesis by (subst row_loop.simps) simp
  qed
qed

lemma concat_map_product:
  "concat (map (\<lambda>r. map (f r) (filter (P r) cs)) rs) =
     map (\<lambda>(r, c). f r c) (filter (\<lambda>(r, c). P r c) (List.product rs cs))"
  by (induction rs) (simp_all add: filter_map comp_def)

lemma dot_pass_product:
  "dot_pass m =
     map (\<lambda>(row, col). dot m (scale_of m) row col)
       (filter (\<lambda>(row, col). \<not> isFinder (m_size m) row col)
          (List.product [0..m_size m - 1] [0..m_size m - 1]))"
  by (simp add: dot_pass_def row_loop_eq concat_map_product)

lemma row_loop_dot_pass: "row_loop m (scale_of m) 0 ops = ops @ dot_pass m"
  by (simp add: dot_pass_def row_loop_eq)

lemma filter_eq_distinct:
  "distinct xs \<Longrightarrow> filter (\<lambda>y. y = x) xs = (if x \<in> set xs then [x] else [])"
  by (induction xs) auto

lemma centred_at_dot:
  assumes "s \<noteq> 0"
  shows "centred_at (real_of_int col * s + s / 2) (real_of_int row * s + s / 2) (dot m s r c)
           \<longleftrightarrow> (r, c) = (row, col)"
  using assms by (auto simp: centred_at_def dot_def Let_def)

lemma dots_at_cell:
  assumes "0 \<le> row" "row < m_size m" "0 \<le> col" "col < m_size m"
  shows "filter (centred_at (real_of_int col * scale_of m + scale_of m / 2)
                            (real_of_int row * scale_of m + scale_of m / 2)) (dot_pass m) =
           (if isFinder (m_size m) row col then [] else [dot m (scale_of m) row col])"
proof -
  let ?n = "m_size m" and ?s = "scale_of m"
  let ?cells = "List.product [0..?n - 1] [0..?n - 1]"
  from assms have "0 < ?n" by simp
  then have s: "?s \<noteq> 0" by (simp add: scale_of_def)
  have d: "distinct ?cells" by (simp add: distinct_product)
  have mem: "(row, col) \<in> set ?cells" using assms by simp
  have "filter (centred_at (real_of_int col * ?s + ?s / 2) (real_of_int row * ?s + ?s / 2)) (dot_pass m)
      = map (\<lambda>(r, c). dot m ?s r c)
          (filter (\<lambda>(r, c). \<not> isFinder ?n r c) (filter (\<lambda>y. y = (row, col)) ?cells))"
    unfolding dot_pass_product filter_map
    by (simp add: comp_def case_prod_beta centred_at_dot[OF s] conj_commute prod_eq_iff)
  also have "filter (\<lambda>y. y = (row, col)) ?cells = [(row, col)]"
    using d mem by (simp add: filter_eq_distinct)
  finally show ?thesis by simp
qed

text \<open>
  Claim C1. The nested loop draws, in row-major order, one filled circle for each cell of
  the matrix that is not in one of the three 7 by 7 corner regions, and nothing else. For
  a cell of the matrix, the circles of the pass centred at the cell's midpoint
  \<open>(col * scale + scale / 2, row * scale + scale / 2)\<close> are: none when the cell is in a
  corner region; exactly one otherwise, of radius \<open>0.18 * scale\<close>, filled black at opacity
  0.9 when the module is dark and white at opacity 0.9 when it is light. The corner regions
  are rows and columns below 7, rows below 7 with the last 7 columns, and the last 7 rows
  with columns below 7. The other calls on the canvas, the background before the pass and
  the finder squares after it, draw no circle.
\<close>

theorem dot_pass_cells:
  "dot_pass m =
     map (\<lambda>(row, col). dot m (scale_of m) row col)
       (filter (\<lambda>(row, col). \<not> isFinder (m_size m) row col)
          (List.product [0..m_size m - 1] [0..m_size m - 1])) \<and>
   (0 \<le> row \<and> row < m_size m \<and> 0 \<le> col \<and> col < m_size m \<longrightarrow>
      filter (centred_at (real_of_int col * scale_of m + scale_of m / 2)
                         (real_of_int row * scale_of m + scale_of m / 2)) (dot_pass m) =
        (if isFinder (m_size m) row col then []
         else [Fill_Arc (real_of_int col * scale_of m + scale_of m / 2)
                        (real_of_int row * scale_of m + scale_of m / 2)
                        (0.18 * scale_of m)
                        (if m_get m row col then rgba 0 0 0 0.9 else rgba 255 255 255 0.9)])) \<and>
   (isFinder (m_size m) row col \<longleftrightarrow>
      (row < 7 \<and> col < 7) \<or> (row < 7 \<and> m_size m - 7 \<le> col) \<or> (m_size m - 7 \<le> row \<and> col < 7)) \<and>
   (\<exists>finders. composite bg m = Draw_Image bg 0 0 1024 1024 # dot_pass m @ finders \<and>
       list_all (\<lambda>op. \<not> centred_at x y op) (Draw_Image bg 0 0 1024 1024 # finders))"
proof (intro conjI impI)
  show "dot_pass m =
     map (\<lambda>(row, col). dot m (scale_of m) row col)
       (filter (\<lambda>(row, col). \<not> isFinder (m_size m) row col)
          (List.product [0..m_size m - 1] [0..m_size m - 1]))"
    by (rule dot_pass_product)
  show "isFinder (m_size m) row col \<longleftrightarrow>
      (row < 7 \<and> col < 7) \<or> (row < 7 \<and> m_size m - 7 \<le> col) \<or> (m_size m - 7 \<le> row \<and> col < 7)"
    by (simp add: isFinder_def)
  show "\<exists>finders. composite bg m = Draw_Image bg 0 0 1024 1024 # dot_pass m @ finders \<and>
       list_all (\<lambda>op. \<not> centred_at x y op) (Draw_Image bg 0 0 1024 1024 # finders)"
    by (simp add: composite_def Let_def drawFinder_def centred_at_def
        row_loop_dot_pass[unfolded scale_of_def])
next
  assume "0 \<le> row \<and> row < m_size m \<and> 0 \<le> col \<and> col < m_size m"
  then show "filter (centred_at (real_of_int col * scale_of m + scale_of m / 2)
                         (real_of_int row * scale_of m + scale_of m / 2)) (dot_pass m) =
        (if isFinder (m_size m) row col then []
         else [Fill_Arc (real_of_int col * scale_of m + scale_of m / 2)
                        (real_of_int row * scale_of m + scale_of m / 2)
                        (0.18 * scale_of m)
                        (if m_get m row col then rgba 0 0 0 0.9 else rgba 255 255 255 0.9)])"
    by (simp add: dots_at_cell dot_def Let_def mult.commute)
qed

theorem dot_pass_cells_witness:
  "filter (centred_at (real_of_int 10 * scale_of ex_modules + scale_of ex_modules / 2)
                      (real_of_int 10 * scale_of ex_modules + scale_of ex_modules / 2)) (dot_pass ex_modules)
     = [Fill_Arc (real_of_int 10 * scale_of ex_modules + scale_of ex_modules / 2)
                 (real_of_int 10 * scale_of ex_modules + scale_of ex_modules / 2)
                 (0.18 * scale_of ex_modules) (rgba 0 0 0 0.9)] \<and>
   filter (centred_at (real_of_int 8 * scale_of ex_modules + scale_of ex_modules / 2)
                      (real_of_int 7 * scale_of ex_modules + scale_of ex_modules / 2)) (dot_pass ex_modules)
     = [Fill_Arc (real_of_int 8 * scale_of ex_modules + scale_of ex_modules / 2)
                 (real_of_int 7 * scale_of ex_modules + scale_of ex_modules / 2)
                 (0.18 * scale_of ex_modules) (rgba 255 255 255 0.9)] \<and>
   filter (centred_at (real_of_int 3 * scale_of ex_modules + scale_of ex_modules / 2)
                      (real_of_int 16 * scale_of ex_modules + scale_of ex_modules / 2)) (dot_pass ex_modules)
     = []"
  using dot_pass_cells [of ex_modules 10 10 "\<lambda>u v. white" 0 0, THEN conjunct2, THEN conjunct1]
    dot_pass_cells [of ex_modules 7 8 "\<lambda>u v. white" 0 0, THEN conjunct2, THEN conjunct1]
    dot_pass_cells [of ex_modules 16 3 "\<lambda>u v. white" 0 0, THEN conjunct2, THEN conjunct1]
  by (simp add: ex_modules_def isFinder_def)

subsection \<open>The finder patterns\<close>

lemma over_opaque: "alpha s = 1 \<Longrightarrow> over s d = s"
  by (simp add: over_def rgba_def)

lemma sample_append: "sample (xs @ ys) p = foldl (paint p) (sample xs p) ys"
  by (simp add: sample_def)

lemma covers_rect_scaled:
  assumes "0 < s"
  shows "covers (Fill_Rect (a * s) (b * s) (w * s) (h * s) c) (x * s, y * s)
           \<longleftrightarrow> a \<le> x \<and> x < a + w \<and> b \<le> y \<and> y < b + h"
proof -
  have "(a * s + w * s) = (a + w) * s" "(b * s + h * s) = (b + h) * s"
    by (simp_all add: algebra_simps)
  then show ?thesis
    using assms by (simp add: mult_le_cancel_right_pos mult_less_cancel_right_pos)
qed

lemma finder_paint:
  assumes "0 < s"
  shows "foldl (paint (x * s, y * s)) c (drawFinder s fx fy []) =
           (if real_of_int fx \<le> x \<and> x < real_of_int fx + 7 \<and> real_of_int fy \<le> y \<and> y < real_of_int fy + 7
            then nested (x - real_of_int fx) (y - real_of_int fy) else c)"
proof -
  have "drawFinder s fx fy [] =
     [Fill_Rect (real_of_int fx * s) (real_of_int fy * s) (7 * s) (7 * s) black,
      Fill_Rect ((real_of_int fx + 1) * s) ((real_of_int fy + 1) * s) (5 * s) (5 * s) white,
      Fill_Rect ((real_of_int fx + 2) * s) ((real_of_int fy + 2) * s) (3 * s) (3 * s) black]"
    by (simp add: drawFinder_def)
  then show ?thesis
    by (auto simp add: paint_def covers_rect_scaled[OF assms] over_opaque black_def white_def
          rgba_def nested_def simp del: covers.simps)
qed

lemma composite_ops:
  "composite bg m =
     Draw_Image bg 0 0 1024 1024 # dot_pass m @
       drawFinder (scale_of m) 0 0 [] @
       drawFinder (scale_of m) (m_size m - 7) 0 [] @
       drawFinder (scale_of m) 0 (m_size m - 7) []"
  by (simp add: composite_def Let_def drawFinder_def row_loop_dot_pass[unfolded scale_of_def] scale_of_def)

lemma sample_composite:
  assumes "0 < m_size m"
  shows "sample (composite bg m) (x * scale_of m, y * scale_of m) =
     foldl (paint (x * scale_of m, y * scale_of m))
       (sample (Draw_Image bg 0 0 1024 1024 # dot_pass m) (x * scale_of m, y * scale_of m))
       (drawFinder (scale_of m) 0 0 [] @
        drawFinder (scale_of m) (m_size m - 7) 0 [] @
        drawFinder (scale_of m) 0 (m_size m - 7) [])"
  by (simp only: composite_ops sample_append[symmetric] append_Cons[symmetric])

text \<open>
  Claim C2. The calls on the canvas are the background image, the dot pass, and then, last
  and whatever came before, the three opaque squares of the finder at the top left, of the
  finder at column \<open>moduleCount - 7\<close> and of the finder at row \<open>moduleCount - 7\<close>: 7 by 7
  modules black, 5 by 5 white inset by one module, 3 by 3 black inset by two. For a matrix
  of at least 14 modules a side (every QR symbol has at least 21), for every background
  image and every module content, the canvas sampled at a position \<open>(u, v)\<close> modules from
  the corner of one of the three finders, inside its 7 by 7 region, is black in the core,
  white in the ring around it and black in the outer ring.
\<close>

theorem finder_patterns:
  "composite bg m =
     Draw_Image bg 0 0 1024 1024 # dot_pass m @
       drawFinder (scale_of m) 0 0 [] @
       drawFinder (scale_of m) (m_size m - 7) 0 [] @
       drawFinder (scale_of m) 0 (m_size m - 7) [] \<and>
   (14 \<le> m_size m \<and> (fx, fy) \<in> {(0, 0), (m_size m - 7, 0), (0, m_size m - 7)} \<and>
    0 \<le> u \<and> u < 7 \<and> 0 \<le> v \<and> v < 7 \<longrightarrow>
      sample (composite bg m) ((real_of_int fx + u) * scale_of m, (real_of_int fy + v) * scale_of m) =
        (if 2 \<le> u \<and> u < 5 \<and> 2 \<le> v \<and> v < 5 then black
         else if 1 \<le> u \<and> u < 6 \<and> 1 \<le> v \<and> v < 6 then white
         else black))"
proof (intro conjI impI)
  show "composite bg m =
     Draw_Image bg 0 0 1024 1024 # dot_pass m @
       drawFinder (scale_of m) 0 0 [] @
       drawFinder (scale_of m) (m_size m - 7) 0 [] @
       drawFinder (scale_of m) 0 (m_size m - 7) []"
    by (rule composite_ops)
next
  assume a: "14 \<le> m_size m \<and> (fx, fy) \<in> {(0, 0), (m_size m - 7, 0), (0, m_size m - 7)} \<and>
    0 \<le> u \<and> u < 7 \<and> 0 \<le> v \<and> v < 7"
  then have n: "14 \<le> real_of_int (m_size m)" by simp
  from a have pos: "0 < m_size m" by simp
  then have s: "0 < scale_of m" by (simp add: scale_of_def)
  let ?x = "real_of_int fx + u" and ?y = "real_of_int fy + v"
  have "sample (composite bg m) (?x * scale_of m, ?y * scale_of m) = nested u v"
    unfolding sample_composite[OF pos] foldl_append finder_paint[OF s]
    using a n by auto
  then show "sample (composite bg m) ((real_of_int fx + u) * scale_of m, (real_of_int fy + v) * scale_of m) =
        (if 2 \<le> u \<and> u < 5 \<and> 2 \<le> v \<and> v < 5 then black
         else if 1 \<le> u \<and> u < 6 \<and> 1 \<le> v \<and> v < 6 then white
         else black)"
    by (simp add: nested_def)
qed

theorem finder_patterns_witness:
  "sample (composite (\<lambda>u v. rgba 10 20 30 1) ex_modules)
      ((real_of_int 0 + 7 / 2) * scale_of ex_modules, (real_of_int 0 + 7 / 2) * scale_of ex_modules) = black \<and>
   sample (composite (\<lambda>u v. rgba 10 20 30 1) ex_modules)
      ((real_of_int 14 + 3 / 2) * scale_of ex_modules, (real_of_int 0 + 3) * scale_of ex_modules) = white \<and>
   sample (composite (\<lambda>u v. rgba 10 20 30 1) ex_modules)
      ((real_of_int 0 + 1 / 2) * scale_of ex_modules, (real_of_int 14 + 3) * scale_of ex_modules) = black"
  using finder_patterns [of "\<lambda>u v. rgba 10 20 30 1" ex_modules 0 0 "7 / 2" "7 / 2", THEN conjunct2]
    finder_patterns [of "\<lambda>u v. rgba 10 20 30 1" ex_modules 14 0 "3 / 2" 3, THEN conjunct2]
    finder_patterns [of "\<lambda>u v. rgba 10 20 30 1" ex_modules 0 14 "1 / 2" 3, THEN conjunct2]
  by (simp add: ex_modules_def)

subsection \<open>The payload\<close>

text \<open>
  Claim C3. Whenever a generation request produces an image, the server has created a link
  for the entered text under the new id and answered with the short URL of that id; the
  matrix drawn is what the encoder returns for that short URL at level \<open>H\<close>, and the entered
  text is what the link stores as its target. The request consults the encoder at that one
  payload and level only: replacing the encoder by any other that agrees with it there
  changes nothing. When the collaborators succeed and the id is new, an image is produced.
\<close>

theorem qr_payload:
  "(generateArtisticQR c e new_id now sourceImage text d = (d1, Result ops) \<longrightarrow>
      post_api_links (APP_URL e) new_id now (Some text) d
        = (d1, Created new_id (short_url (APP_URL e) new_id)) \<and>
      select_link new_id d1 = Some \<lparr>l_id = new_id, target_url = text, created_at = now\<rparr> \<and>
      (\<exists>modules bgImg. create c (short_url (APP_URL e) new_id) H = Some modules \<and>
          ops = composite bgImg modules)) \<and>
   (f (short_url (APP_URL e) new_id) H = create c (short_url (APP_URL e) new_id) H \<longrightarrow>
      generateArtisticQR (c\<lparr>create := f\<rparr>) e new_id now sourceImage text d
        = generateArtisticQR c e new_id now sourceImage text d) \<and>
   (sourceImage = Some src \<and> src \<noteq> [] \<and> text \<noteq> [] \<and> new_id \<notin> set (map l_id (tbl_links d)) \<and>
    stylize c src = Some styled \<and> create c (short_url (APP_URL e) new_id) H = Some modules \<and>
    getContext c \<and> load_image c styled = Some bgImg \<longrightarrow>
      snd (generateArtisticQR c e new_id now sourceImage text d) = Result (composite bgImg modules))"
proof (intro conjI impI)
  assume r: "generateArtisticQR c e new_id now sourceImage text d = (d1, Result ops)"
  then have t: "text \<noteq> []"
    by (auto simp: generateArtisticQR_def split: if_splits)
  from r obtain i su where p: "post_api_links (APP_URL e) new_id now (Some text) d = (d1, Created i su)"
    by (auto simp: generateArtisticQR_def split: if_splits prod.splits response.splits option.splits)
  then have ins: "insert_link new_id text now d = Some d1" and i: "i = new_id"
    and su: "su = short_url (APP_URL e) new_id"
    by (auto simp: post_api_links_def split: if_splits option.splits)
  from p i su show "post_api_links (APP_URL e) new_id now (Some text) d
        = (d1, Created new_id (short_url (APP_URL e) new_id))" by simp
  from ins show "select_link new_id d1 = Some \<lparr>l_id = new_id, target_url = text, created_at = now\<rparr>"
    by (rule select_link_insert)
  from r p i su show "\<exists>modules bgImg. create c (short_url (APP_URL e) new_id) H = Some modules \<and>
          ops = composite bgImg modules"
    by (auto simp: generateArtisticQR_def split: if_splits option.splits)
next
  assume "f (short_url (APP_URL e) new_id) H = create c (short_url (APP_URL e) new_id) H"
  then show "generateArtisticQR (c\<lparr>create := f\<rparr>) e new_id now sourceImage text d
        = generateArtisticQR c e new_id now sourceImage text d"
    by (auto simp: generateArtisticQR_def post_api_links_def split: option.splits)
next
  assume "sourceImage = Some src \<and> src \<noteq> [] \<and> text \<noteq> [] \<and> new_id \<notin> set (map l_id (tbl_links d)) \<and>
    stylize c src = Some styled \<and> create c (short_url (APP_URL e) new_id) H = Some modules \<and>
    getContext c \<and> load_image c styled = Some bgImg"
  then show "snd (generateArtisticQR c e new_id now sourceImage text d) = Result (composite bgImg modules)"
    by (simp add: generateArtisticQR_def post_api_links_def insert_link_def falsy_def)
qed

theorem qr_payload_witness:
  "snd (generateArtisticQR ex_collaborators ex_env ''q1'' ((2024, 3, 1), (0, 0, 0)) (Some ''photo'')
         ''https://google.com'' (ex_db ''false''))
     = Result (composite (\<lambda>u v. rgba 10 20 30 1) ex_modules) \<and>
   create ex_collaborators ''https://google.com'' H = None \<and>
   create ex_collaborators ''http://localhost:3000/s/q1'' L = None \<and>
   select_link ''q1'' (fst (generateArtisticQR ex_collaborators ex_env ''q1'' ((2024, 3, 1), (0, 0, 0))
         (Some ''photo'') ''https://google.com'' (ex_db ''false'')))
     = Some \<lparr>l_id = ''q1'', target_url = ''https://google.com'', created_at = ((2024, 3, 1), (0, 0, 0))\<rparr>"
  using qr_payload [of ex_collaborators ex_env "''q1''" "((2024, 3, 1), (0, 0, 0))" "Some ''photo''"
      "''https://google.com''" "ex_db ''false''"
      "fst (generateArtisticQR ex_collaborators ex_env ''q1'' ((2024, 3, 1), (0, 0, 0))
         (Some ''photo'') ''https://google.com'' (ex_db ''false''))"
      "composite (\<lambda>u v. rgba 10 20 30 1) ex_modules"
      "create ex_collaborators" "''photo''" "''toon:photo''" ex_modules "\<lambda>u v. rgba 10 20 30 1"]
  by (simp add: ex_collaborators_def ex_env_def ex_db_def ex_links_def short_url_def or_else_def
      generateArtisticQR_def post_api_links_def insert_link_def falsy_def select_link_def)

end
